theory Spec2Isabelle
  imports Main "HOL-Library.Sublist"
begin

section \<open>Python values and exceptions\<close>

text \<open>
  The exceptions that \<open>ltn/core.py\<close> raises itself or that the Python and torch
  operations it calls raise.
\<close>

datatype error =
  ValueError | TypeError | IndexError | AttributeError | RuntimeError | KeyError | NameError

text \<open>
  Evaluating a name inside a function of \<open>ltn/core.py\<close> that is not a local variable:
  Python looks it up in the module namespace, then among the builtins, and raises
  \<open>NameError\<close> when it is in neither. The module namespace holds the two imports and
  the classes and functions the file defines; of the builtins, those the file uses are
  listed.
\<close>

definition core_globals :: "string list" where
  "core_globals = [''torch'', ''nn'', ''Domain'', ''Constant'', ''Variable'',
     ''get_dim0_of_dom'', ''cross_grounding_values'', ''Predicate'']"

definition builtins :: "string list" where
  "builtins = [''object'', ''isinstance'', ''tuple'', ''all'', ''int'', ''ValueError'', ''str'',
     ''repr'', ''len'', ''list'', ''set'', ''range'', ''super'', ''print'', ''classmethod'']"

definition load_global :: "string \<Rightarrow> error + string" where
  "load_global name =
     (if name \<in> set core_globals \<or> name \<in> set builtins then Inr name else Inl NameError)"

text \<open>
  The dynamically typed values that can reach the \<open>shape\<close> argument of \<open>Domain\<close>.
  Floats are left out.
\<close>

datatype pyval =
    PyInt int
  | PyBool bool
  | PyStr string
  | PyNone
  | PyTuple "pyval list"
  | PyList "pyval list"

text \<open>\<open>isinstance(v, int)\<close>: \<open>bool\<close> is a subclass of \<open>int\<close>.\<close>

fun isinstance_int :: "pyval \<Rightarrow> bool" where
  "isinstance_int (PyInt i) = True"
| "isinstance_int (PyBool b) = True"
| "isinstance_int v = False"

fun isinstance_tuple :: "pyval \<Rightarrow> bool" where
  "isinstance_tuple (PyTuple vs) = True"
| "isinstance_tuple v = False"

text \<open>
  \<open>for v in shape\<close>: the items a value yields when iterated, \<open>None\<close> when it is not
  iterable (Python raises \<open>TypeError\<close>). A string yields its characters as strings.
\<close>

fun py_iter :: "pyval \<Rightarrow> pyval list option" where
  "py_iter (PyTuple vs) = Some vs"
| "py_iter (PyList vs) = Some vs"
| "py_iter (PyStr s) = Some (map (\<lambda>c. PyStr [c]) s)"
| "py_iter v = None"

section \<open>Domain\<close>

record Domain =
  shape :: pyval
  domain_name :: string

text \<open>
  \<open>Domain.__init__\<close>. The guard is
  \<open>not isinstance(shape, tuple) and all(isinstance(v, int) for v in shape)\<close>:
  \<open>not\<close> binds tighter than \<open>and\<close>, and \<open>and\<close> evaluates its right operand only when
  the left one is true, so a tuple is never iterated.
\<close>

definition Domain_init :: "pyval \<Rightarrow> string \<Rightarrow> error + Domain" where
  "Domain_init shp name =
     (if \<not> isinstance_tuple shp then
        (case py_iter shp of
           None \<Rightarrow> Inl TypeError
         | Some vs \<Rightarrow>
             if list_all isinstance_int vs then Inl ValueError
             else Inr \<lparr>shape = shp, domain_name = name\<rparr>)
      else Inr \<lparr>shape = shp, domain_name = name\<rparr>)"

text \<open>The reading of "a tuple of non-negative integers" used to state the claim on \<open>Domain\<close>.\<close>

fun nonneg_int :: "pyval \<Rightarrow> bool" where
  "nonneg_int (PyInt i) = (0 \<le> i)"
| "nonneg_int (PyBool b) = True"
| "nonneg_int v = False"

fun nonneg_int_tuple :: "pyval \<Rightarrow> bool" where
  "nonneg_int_tuple (PyTuple vs) = list_all nonneg_int vs"
| "nonneg_int_tuple v = False"

section \<open>Tensors\<close>

text \<open>
  The value of a \<open>torch.Tensor\<close>: its shape and its elements in row-major order. The
  element type is left open: no operation of \<open>cross_grounding_values\<close> computes with
  the numbers, it only moves them.
\<close>

record 'a tensor =
  tshape :: "nat list"
  elems :: "'a list"

text \<open>\<open>Tensor.size(dim)\<close> for a non-negative \<open>dim\<close>.\<close>

definition torch_size :: "'a tensor \<Rightarrow> nat \<Rightarrow> error + nat" where
  "torch_size t d = (if d < length (tshape t) then Inr (tshape t ! d) else Inl IndexError)"

text \<open>
  \<open>t[i]\<close> for a non-negative \<open>i\<close>: the slice at index \<open>i\<close> of axis 0. A tensor
  without axes cannot be indexed, and \<open>i\<close> has to be below the size of axis 0.
\<close>

definition torch_index0 :: "'a tensor \<Rightarrow> nat \<Rightarrow> error + 'a tensor" where
  "torch_index0 t i =
     (case tshape t of
        [] \<Rightarrow> Inl IndexError
      | n # rest \<Rightarrow>
          if i < n
          then Inr \<lparr>tshape = rest,
                    elems = take (prod_list rest) (drop (i * prod_list rest) (elems t))\<rparr>
          else Inl IndexError)"

text \<open>\<open>torch.unsqueeze(t, dim)\<close>: a new axis of size 1 before axis \<open>dim\<close>.\<close>

definition torch_unsqueeze :: "'a tensor \<Rightarrow> nat \<Rightarrow> error + 'a tensor" where
  "torch_unsqueeze t d =
     (if d \<le> length (tshape t)
      then Inr \<lparr>tshape = take d (tshape t) @ 1 # drop d (tshape t), elems = elems t\<rparr>
      else Inl IndexError)"

text \<open>The list cut into consecutive blocks of \<open>n\<close> elements.\<close>

fun chunks :: "nat \<Rightarrow> 'a list \<Rightarrow> 'a list list" where
  "chunks n xs = (if n = 0 \<or> xs = [] then [] else take n xs # chunks n (drop n xs))"

declare chunks.simps [simp del]

text \<open>
  \<open>torch.repeat_interleave(t, repeats, dim)\<close> with an integer \<open>repeats\<close>: every
  slice along axis \<open>dim\<close> is repeated \<open>repeats\<close> times in place. In row-major order
  a slice at a fixed index of the axes up to \<open>dim\<close> is a block of as many elements as
  the axes after \<open>dim\<close> hold.
\<close>

definition torch_repeat_interleave :: "'a tensor \<Rightarrow> nat \<Rightarrow> nat \<Rightarrow> error + 'a tensor" where
  "torch_repeat_interleave t r d =
     (if d < length (tshape t)
      then Inr \<lparr>tshape = (tshape t)[d := r * (tshape t ! d)],
                elems = concat (map (\<lambda>b. concat (replicate r b))
                          (chunks (prod_list (drop (Suc d) (tshape t))) (elems t)))\<rparr>
      else Inl IndexError)"

text \<open>Row-major index arithmetic: the multi-index of a flat position, and back.\<close>

fun unravel :: "nat list \<Rightarrow> nat \<Rightarrow> nat list" where
  "unravel [] k = []"
| "unravel (s # ss) k = (k div prod_list ss) # unravel ss (k mod prod_list ss)"

fun ravel :: "nat list \<Rightarrow> nat list \<Rightarrow> nat" where
  "ravel (s # ss) (i # is) = i * prod_list ss + ravel ss is"
| "ravel ss is = 0"

text \<open>The first position of \<open>x\<close> in \<open>xs\<close> (the length of \<open>xs\<close> when it is absent).\<close>

fun pos :: "'a list \<Rightarrow> 'a \<Rightarrow> nat" where
  "pos [] x = 0"
| "pos (y # ys) x = (if y = x then 0 else Suc (pos ys x))"

text \<open>\<open>list.index(x)\<close>: \<open>ValueError\<close> when \<open>x\<close> is not in the list.\<close>

definition list_index :: "'a list \<Rightarrow> 'a \<Rightarrow> error + nat" where
  "list_index xs x = (if x \<in> set xs then Inr (pos xs x) else Inl ValueError)"

text \<open>
  \<open>Tensor.permute(perm)\<close>: axis \<open>a\<close> of the result is axis \<open>perm[a]\<close> of the
  argument. torch refuses a \<open>perm\<close> of the wrong length (\<open>RuntimeError\<close>), then goes
  through its entries: one that is not an axis raises \<open>IndexError\<close>, one that has
  been seen before raises \<open>RuntimeError\<close>.
\<close>

fun permute_check :: "nat \<Rightarrow> nat list \<Rightarrow> nat list \<Rightarrow> error option" where
  "permute_check n seen [] = None"
| "permute_check n seen (p # ps) =
     (if \<not> p < n then Some IndexError
      else if p \<in> set seen then Some RuntimeError
      else permute_check n (p # seen) ps)"

definition torch_permute :: "'a tensor \<Rightarrow> nat list \<Rightarrow> error + 'a tensor" where
  "torch_permute t perm =
     (let sh = tshape t; n = length sh in
      if length perm \<noteq> n then Inl RuntimeError
      else
        (case permute_check n [] perm of
           Some e \<Rightarrow> Inl e
         | None \<Rightarrow>
             (let nsh = map (\<lambda>p. sh ! p) perm in
              Inr \<lparr>tshape = nsh,
                   elems = map (\<lambda>k. elems t ! ravel sh (map (\<lambda>ax. unravel nsh k ! pos perm ax) [0..<n]))
                             [0..<prod_list nsh]\<rparr>)))"

text \<open>
  \<open>torch.reshape(t, shape)\<close>. One entry of \<open>shape\<close> may be \<open>-1\<close>; it is inferred
  from the number of elements, and torch refuses to infer it when the other entries
  multiply to zero. The elements keep their row-major order.
\<close>

definition torch_reshape :: "'a tensor \<Rightarrow> int list \<Rightarrow> error + 'a tensor" where
  "torch_reshape t shp =
     (let numel = prod_list (tshape t);
          known = map nat (filter (\<lambda>i. i \<noteq> - 1) shp);
          p = prod_list known in
      if list_ex (\<lambda>i. i < - 1) shp \<or> 1 < length (filter (\<lambda>i. i = - 1) shp) then Inl RuntimeError
      else if list_ex (\<lambda>i. i = - 1) shp then
        (if p = 0 \<or> numel mod p \<noteq> 0 then Inl RuntimeError
         else Inr \<lparr>tshape = map (\<lambda>i. if i = - 1 then numel div p else nat i) shp, elems = elems t\<rparr>)
      else if p = numel then Inr \<lparr>tshape = known, elems = elems t\<rparr>
      else Inl RuntimeError)"

section \<open>Tensor objects and the object store\<close>

text \<open>
  A Python tensor object: the tensor's value and the attribute \<open>active_doms\<close> that the
  code sets on it dynamically (\<open>None\<close>: the object has no such attribute). Every torch
  operation returns a new object, which carries no dynamically set attribute.
  The store is the list of all objects; a reference is an index into it. Views share
  their storage with the tensor they come from, which the store does not record: no
  code here writes to a tensor's elements.
\<close>

record 'a tobj =
  val :: "'a tensor"
  active_doms :: "string list option"

type_synonym 'a heap = "'a tobj list"

definition alloc :: "'a tensor \<Rightarrow> 'a heap \<Rightarrow> 'a heap \<times> nat" where
  "alloc t H = (H @ [\<lparr>val = t, active_doms = None\<rparr>], length H)"

text \<open>
  A torch operation on the object at \<open>r\<close>, a reference to an object of the store: its
  result is a new object.
\<close>

definition torch_op ::
  "('a tensor \<Rightarrow> error + 'a tensor) \<Rightarrow> nat \<Rightarrow> 'a heap \<Rightarrow> 'a heap \<times> (error + nat)" where
  "torch_op f r H =
     (case f (val (H ! r)) of
        Inl e \<Rightarrow> (H, Inl e)
      | Inr t \<Rightarrow> (case alloc t H of (H', r') \<Rightarrow> (H', Inr r')))"

text \<open>Reading \<open>grounding.active_doms\<close>, and the assignment \<open>grounding.active_doms = doms\<close>.\<close>

definition get_active_doms :: "'a heap \<Rightarrow> nat \<Rightarrow> error + string list" where
  "get_active_doms H r =
     (case active_doms (H ! r) of None \<Rightarrow> Inl AttributeError | Some ds \<Rightarrow> Inr ds)"

definition set_active_doms :: "nat \<Rightarrow> string list \<Rightarrow> 'a heap \<Rightarrow> 'a heap" where
  "set_active_doms r ds H = H[r := (H ! r)\<lparr>active_doms := Some ds\<rparr>]"

section \<open>The broadcasting engine\<close>

text \<open>
  A Python \<open>dict\<close> keeps its keys in insertion order; assigning to a key that is present
  replaces the value and leaves the key where it is.
\<close>

fun dict_set :: "('k \<times> 'v) list \<Rightarrow> 'k \<Rightarrow> 'v \<Rightarrow> ('k \<times> 'v) list" where
  "dict_set [] k v = [(k, v)]"
| "dict_set ((k', v') # kvs) k v =
     (if k' = k then (k, v) # kvs else (k', v') # dict_set kvs k v)"

definition dict_get :: "('k \<times> 'v) list \<Rightarrow> 'k \<Rightarrow> error + 'v" where
  "dict_get d k = (case map_of d k of None \<Rightarrow> Inl KeyError | Some v \<Rightarrow> Inr v)"

definition get_dim0_of_dom :: "'a heap \<Rightarrow> nat \<Rightarrow> string \<Rightarrow> error + nat" where
  "get_dim0_of_dom H grounding dm =
     (case get_active_doms H grounding of
        Inl e \<Rightarrow> Inl e
      | Inr ds \<Rightarrow>
          (case list_index ds dm of
             Inl e \<Rightarrow> Inl e
           | Inr i \<Rightarrow> torch_size (val (H ! grounding)) i))"

text \<open>The first loop of \<open>cross_grounding_values\<close>: the inner loop, then the outer one.\<close>

fun scan_doms ::
  "'a heap \<Rightarrow> nat \<Rightarrow> string list \<Rightarrow> (string \<times> nat) list \<Rightarrow> error + (string \<times> nat) list" where
  "scan_doms H grounding [] d = Inr d"
| "scan_doms H grounding (dm # rest) d =
     (case get_dim0_of_dom H grounding dm of
        Inl e \<Rightarrow> Inl e
      | Inr n \<Rightarrow> scan_doms H grounding rest (dict_set d dm n))"

fun scan_groundings ::
  "'a heap \<Rightarrow> nat list \<Rightarrow> (string \<times> nat) list \<Rightarrow> error + (string \<times> nat) list" where
  "scan_groundings H [] d = Inr d"
| "scan_groundings H (grounding # rest) d =
     (case get_active_doms H grounding of
        Inl e \<Rightarrow> Inl e
      | Inr ds \<Rightarrow>
          (case scan_doms H grounding ds d of
             Inl e \<Rightarrow> Inl e
           | Inr d' \<Rightarrow> scan_groundings H rest d'))"

text \<open>
  The loop over \<open>doms_not_in_grounding\<close>: the local variables are the reference
  \<open>grounding\<close> and the list \<open>doms_in_grounding\<close>.
\<close>

fun add_new_doms ::
  "(string \<times> nat) list \<Rightarrow> string list \<Rightarrow> nat \<Rightarrow> string list \<Rightarrow> 'a heap
     \<Rightarrow> 'a heap \<times> (error + nat \<times> string list)" where
  "add_new_doms doms_to_dim0 [] grounding doms_in_grounding H =
     (H, Inr (grounding, doms_in_grounding))"
| "add_new_doms doms_to_dim0 (new_dom # rest) grounding doms_in_grounding H =
     (let new_idx = length doms_in_grounding in
      case torch_op (\<lambda>t. torch_unsqueeze t new_idx) grounding H of
        (H1, Inl e) \<Rightarrow> (H1, Inl e)
      | (H1, Inr g1) \<Rightarrow>
          (case dict_get doms_to_dim0 new_dom of
             Inl e \<Rightarrow> (H1, Inl e)
           | Inr n \<Rightarrow>
               (case torch_op (\<lambda>t. torch_repeat_interleave t n new_idx) g1 H1 of
                  (H2, Inl e) \<Rightarrow> (H2, Inl e)
                | (H2, Inr g2) \<Rightarrow>
                    add_new_doms doms_to_dim0 rest g2 (doms_in_grounding @ [new_dom]) H2)))"

text \<open>\<open>[doms_in_grounding.index(dom) for dom in doms]\<close>.\<close>

definition index_each :: "'a list \<Rightarrow> 'a list \<Rightarrow> error + nat list" where
  "index_each xs ys =
     (if list_all (\<lambda>y. y \<in> set xs) ys then Inr (map (pos xs) ys) else Inl ValueError)"

text \<open>
  The body of the second loop, for one grounding. \<open>set_order doms ds\<close> is the order in
  which Python iterates the set \<open>set(doms).difference(ds)\<close>; the language leaves it
  open, so it is a parameter.
\<close>

definition cross_grounding ::
  "(string list \<Rightarrow> string list \<Rightarrow> string list) \<Rightarrow> (string \<times> nat) list \<Rightarrow> string list \<Rightarrow> bool
     \<Rightarrow> nat \<Rightarrow> 'a heap \<Rightarrow> 'a heap \<times> (error + nat)" where
  "cross_grounding set_order doms_to_dim0 doms flatten_dim0 grounding H =
     (case get_active_doms H grounding of
        Inl e \<Rightarrow> (H, Inl e)
      | Inr ds \<Rightarrow>
          (case add_new_doms doms_to_dim0 (set_order doms ds) grounding ds H of
             (H1, Inl e) \<Rightarrow> (H1, Inl e)
           | (H1, Inr (g1, doms_in_grounding)) \<Rightarrow>
               (case index_each doms_in_grounding doms of
                  Inl e \<Rightarrow> (H1, Inl e)
                | Inr idxs \<Rightarrow>
                    (let perm = idxs @ [length doms_in_grounding ..< length (tshape (val (H1 ! g1)))] in
                     case torch_op (\<lambda>t. torch_permute t perm) g1 H1 of
                       (H2, Inl e) \<Rightarrow> (H2, Inl e)
                     | (H2, Inr g2) \<Rightarrow>
                         (let H3 = set_active_doms g2 doms H2 in
                          if flatten_dim0 then
                            torch_op (\<lambda>t. torch_reshape t
                                (- 1 # map int (drop (length doms_in_grounding) (tshape t)))) g2 H3
                          else (H3, Inr g2))))))"

fun cross_loop ::
  "(string list \<Rightarrow> string list \<Rightarrow> string list) \<Rightarrow> (string \<times> nat) list \<Rightarrow> string list \<Rightarrow> bool
     \<Rightarrow> nat list \<Rightarrow> nat list \<Rightarrow> 'a heap \<Rightarrow> 'a heap \<times> (error + nat list)" where
  "cross_loop set_order doms_to_dim0 doms flatten_dim0 [] crossed_groundings H =
     (H, Inr crossed_groundings)"
| "cross_loop set_order doms_to_dim0 doms flatten_dim0 (grounding # rest) crossed_groundings H =
     (case cross_grounding set_order doms_to_dim0 doms flatten_dim0 grounding H of
        (H1, Inl e) \<Rightarrow> (H1, Inl e)
      | (H1, Inr g) \<Rightarrow>
          cross_loop set_order doms_to_dim0 doms flatten_dim0 rest (crossed_groundings @ [g]) H1)"

definition cross_grounding_values ::
  "(string list \<Rightarrow> string list \<Rightarrow> string list) \<Rightarrow> nat list \<Rightarrow> bool \<Rightarrow> 'a heap
     \<Rightarrow> 'a heap \<times> (error + nat list \<times> string list \<times> nat list)" where
  "cross_grounding_values set_order groundings flatten_dim0 H =
     (case scan_groundings H groundings [] of
        Inl e \<Rightarrow> (H, Inl e)
      | Inr doms_to_dim0 \<Rightarrow>
          (let doms = map fst doms_to_dim0; dims0 = map snd doms_to_dim0 in
           case cross_loop set_order doms_to_dim0 doms flatten_dim0 groundings [] H of
             (H1, Inl e) \<Rightarrow> (H1, Inl e)
           | (H1, Inr crossed_groundings) \<Rightarrow> (H1, Inr (crossed_groundings, doms, dims0))))"

text \<open>
  What the callers have to provide. The iteration order of a set is some enumeration of
  its elements without repetition; a grounding is a tensor object that has the attribute,
  with distinct labels, one leading axis per label, and as many elements as its shape says.
\<close>

definition set_order_ok :: "(string list \<Rightarrow> string list \<Rightarrow> string list) \<Rightarrow> bool" where
  "set_order_ok set_order =
     (\<forall>doms ds. distinct (set_order doms ds) \<and> set (set_order doms ds) = set doms - set ds)"

definition first_seen_order :: "string list \<Rightarrow> string list \<Rightarrow> string list" where
  "first_seen_order doms ds = filter (\<lambda>d. d \<notin> set ds) (remdups doms)"

definition wf_grounding :: "'a tobj \<Rightarrow> bool" where
  "wf_grounding g =
     (case active_doms g of
        None \<Rightarrow> False
      | Some ds \<Rightarrow>
          distinct ds \<and> length ds \<le> length (tshape (val g)) \<and>
          length (elems (val g)) = prod_list (tshape (val g)))"

text \<open>
  The labels a grounding carries, and the number of individuals it binds to one of them:
  the size of the axis at the label's position.
\<close>

definition doms_of :: "'a tobj \<Rightarrow> string list" where
  "doms_of g = (case active_doms g of None \<Rightarrow> [] | Some ds \<Rightarrow> ds)"

definition count_of :: "'a tobj \<Rightarrow> string \<Rightarrow> nat" where
  "count_of g d = tshape (val g) ! pos (doms_of g) d"

text \<open>The items of a list in the order in which they are first seen, each once.\<close>

fun first_seen :: "'a list \<Rightarrow> 'a list" where
  "first_seen [] = []"
| "first_seen (x # xs) = x # filter (\<lambda>y. y \<noteq> x) (first_seen xs)"

definition wf_groundings :: "'a heap \<Rightarrow> nat list \<Rightarrow> bool" where
  "wf_groundings H gs = list_all (\<lambda>g. g < length H \<and> wf_grounding (H ! g)) gs"

section \<open>Variable\<close>

text \<open>
  What \<open>individuals_seq\<close> can be: a tensor, used as it is (\<open>torch.tensor\<close> of a tensor
  that is not a \<open>FloatTensor\<close> copies it, with the same value), or a nested Python
  sequence of numbers, which \<open>torch.tensor\<close> converts when its nesting is rectangular.
\<close>

datatype 'a pyseq = Num 'a | Seq "'a pyseq list"

datatype 'a individuals = Tensor "'a tensor" | Sequence "'a pyseq"

fun torch_tensor :: "'a pyseq \<Rightarrow> error + 'a tensor" where
  "torch_tensor (Num a) = Inr \<lparr>tshape = [], elems = [a]\<rparr>"
| "torch_tensor (Seq xs) =
     (let rs = map torch_tensor xs in
      if list_ex isl rs then Inl ValueError
      else
        (case map projr rs of
           [] \<Rightarrow> Inr \<lparr>tshape = [0], elems = []\<rparr>
         | t # ts \<Rightarrow>
             if list_all (\<lambda>u. tshape u = tshape t) ts
             then Inr \<lparr>tshape = Suc (length ts) # tshape t, elems = concat (map elems (t # ts))\<rparr>
             else Inl ValueError))"

text \<open>
  \<open>size == domain.shape\<close>: a \<open>torch.Size\<close> is a tuple, equal to a tuple of the same
  integers (\<open>True == 1\<close> in Python) and to nothing else.
\<close>

fun int_eq :: "nat \<Rightarrow> pyval \<Rightarrow> bool" where
  "int_eq n (PyInt i) = (i = int n)"
| "int_eq n (PyBool b) = (n = (if b then 1 else 0))"
| "int_eq n v = False"

fun size_eq :: "nat list \<Rightarrow> pyval \<Rightarrow> bool" where
  "size_eq ns (PyTuple vs) = list_all2 int_eq ns vs"
| "size_eq ns v = False"

record 'a Variable =
  grounding :: "'a tensor"
  domain :: Domain
  variable_name :: string
  free_variables :: "string list"

definition Variable_init :: "string \<Rightarrow> Domain \<Rightarrow> 'a individuals \<Rightarrow> error + 'a Variable" where
  "Variable_init name dmn individuals_seq =
     (case (case individuals_seq of Tensor t \<Rightarrow> Inr t | Sequence s \<Rightarrow> torch_tensor s) of
        Inl e \<Rightarrow> Inl e
      | Inr g \<Rightarrow>
          (case torch_index0 g 0 of
             Inl e \<Rightarrow> Inl e
           | Inr g0 \<Rightarrow>
               if \<not> size_eq (tshape g0) (shape dmn) then Inl ValueError
               else
                 (let g' = (if length (tshape g) = 1
                            then \<lparr>tshape = [1, tshape g ! 0], elems = elems g\<rparr> else g) in
                  if take 4 name = ''diag'' then Inl ValueError
                  else Inr \<lparr>grounding = g', domain = dmn, variable_name = name,
                            free_variables = [name]\<rparr>)))"

section \<open>Constant\<close>

text \<open>
  \<open>Constant.__init__\<close>. \<open>torch.tensor(value, requires_grad=trainable)\<close> converts the
  value as above and refuses \<open>requires_grad=True\<close> with \<open>RuntimeError\<close> unless the
  data type it infers is a floating-point one: some number is a float, or there is no
  number at all. Which numbers are floats is the parameter \<open>is_float\<close>. The fields
  are those the constructor assigns, \<open>grounding\<close>, \<open>domain\<close> and \<open>free_variables\<close>
  under the prefix \<open>constant_\<close>; like \<open>Variable.__init__\<close> it assigns nothing else,
  neither on the object nor on the tensor.
\<close>

record 'a Constant =
  constant_name :: string
  constant_grounding :: "'a tensor"
  constant_domain :: Domain
  constant_free_variables :: "string list"

definition Constant_init ::
  "('a \<Rightarrow> bool) \<Rightarrow> string \<Rightarrow> Domain \<Rightarrow> 'a individuals \<Rightarrow> bool \<Rightarrow> error + 'a Constant" where
  "Constant_init is_float name dmn v trainable =
     (case (case v of Tensor t \<Rightarrow> Inr t | Sequence s \<Rightarrow> torch_tensor s) of
        Inl e \<Rightarrow> Inl e
      | Inr v' \<Rightarrow>
          if trainable \<and> \<not> (elems v' = [] \<or> list_ex is_float (elems v')) then Inl RuntimeError
          else if \<not> size_eq (tshape v') (shape dmn) then Inl ValueError
          else Inr \<lparr>constant_name = name, constant_grounding = v', constant_domain = dmn,
                    constant_free_variables = []\<rparr>)"

section \<open>Predicate\<close>

text \<open>
  What the wrapped model is called with: \<open>Predicate.forward\<close> passes it one object, a
  tensor or a Python list of tensors. The model is a function of the values it is given
  and returns a new tensor; the further arguments \<open>*args, **kwargs\<close>, handed through
  untouched, are left out.
\<close>

datatype 'a marg = ArgTensor "'a tensor" | ArgList "'a tensor list"

datatype layer = Linear nat nat | ELU | Sigmoid

text \<open>
  The modules a \<open>Predicate\<close> wraps: the \<open>nn.Sequential\<close> that \<open>Predicate.MLP\<close>
  builds, and any module of the caller's (its forward function and the shapes of its
  parameters).
\<close>

datatype 'a nn_module =
    Sequential "layer list"
  | Module "'a marg \<Rightarrow> error + 'a tensor" "nat list list"

text \<open>
  \<open>self.model(inputs)\<close>. What a \<open>Sequential\<close> of layers computes is torch's
  floating-point arithmetic on randomly initialised weights: a parameter.
\<close>

fun module_call ::
  "(layer list \<Rightarrow> 'a marg \<Rightarrow> error + 'a tensor) \<Rightarrow> 'a nn_module \<Rightarrow> 'a marg \<Rightarrow> error + 'a tensor" where
  "module_call run_layers (Sequential ls) x = run_layers ls x"
| "module_call run_layers (Module f ps) x = f x"

text \<open>
  The shapes of \<open>module.parameters()\<close>: an \<open>nn.Linear(n_in, n_out)\<close> has a weight of
  shape \<open>(n_out, n_in)\<close> and a bias of shape \<open>(n_out,)\<close>; activations have none.
\<close>

fun layer_parameters :: "layer \<Rightarrow> nat list list" where
  "layer_parameters (Linear n_in n_out) = [[n_out, n_in], [n_out]]"
| "layer_parameters ELU = []"
| "layer_parameters Sigmoid = []"

fun parameters :: "'a nn_module \<Rightarrow> nat list list" where
  "parameters (Sequential ls) = concat (map layer_parameters ls)"
| "parameters (Module f ps) = ps"

record 'a Predicate =
  model :: "'a nn_module"

text \<open>
  The argument \<open>inputs\<close> of \<open>forward\<close>, a tensor or a list (or tuple) of tensors, and
  the value of the local variable \<open>inputs\<close> after the crossing.
\<close>

datatype 'r py_inputs = One 'r | Many "'r list"

text \<open>\<open>inputs.shape\<close>: a tensor has the attribute, a Python list has not.\<close>

fun shape_attr :: "'a heap \<Rightarrow> nat py_inputs \<Rightarrow> error + nat list" where
  "shape_attr H (One r) = Inr (tshape (val (H ! r)))"
| "shape_attr H (Many rs) = Inl AttributeError"

fun marg_of :: "'a heap \<Rightarrow> nat py_inputs \<Rightarrow> 'a marg" where
  "marg_of H (One r) = ArgTensor (val (H ! r))"
| "marg_of H (Many rs) = ArgList (map (\<lambda>r. val (H ! r)) rs)"

text \<open>
  \<open>Predicate.forward\<close>. The state is the object store and the list of the arguments the
  wrapped model has been called with. The \<open>print\<close> statements write to standard
  output, which is not part of the state; evaluating their arguments is:
  \<open>print(inputs.shape)\<close> reads the attribute \<open>shape\<close> of \<open>inputs\<close>.
\<close>

definition forward ::
  "(string list \<Rightarrow> string list \<Rightarrow> string list) \<Rightarrow> (layer list \<Rightarrow> 'a marg \<Rightarrow> error + 'a tensor)
     \<Rightarrow> 'a Predicate \<Rightarrow> nat py_inputs \<Rightarrow> 'a heap \<Rightarrow> ('a heap \<times> 'a marg list) \<times> (error + nat)" where
  "forward set_order run_layers self inputs H =
     (case (case inputs of
              One g \<Rightarrow>
                (case cross_grounding_values set_order [g] True H of
                   (H1, Inl e) \<Rightarrow> (H1, Inl e)
                 | (H1, Inr (crossed, doms, dims_0)) \<Rightarrow>
                     (case crossed of
                        [] \<Rightarrow> (H1, Inl IndexError)
                      | c # cs \<Rightarrow> (H1, Inr (One c, doms, dims_0))))
            | Many gs \<Rightarrow>
                (case cross_grounding_values set_order gs True H of
                   (H1, Inl e) \<Rightarrow> (H1, Inl e)
                 | (H1, Inr (crossed, doms, dims_0)) \<Rightarrow> (H1, Inr (Many crossed, doms, dims_0)))) of
        (H1, Inl e) \<Rightarrow> ((H1, []), Inl e)
      | (H1, Inr (inputs', doms, dims_0)) \<Rightarrow>
          (case shape_attr H1 inputs' of
             Inl e \<Rightarrow> ((H1, []), Inl e)
           | Inr printed \<Rightarrow>
               (let arg = marg_of H1 inputs' in
                case module_call run_layers (model self) arg of
                  Inl e \<Rightarrow> ((H1, [arg]), Inl e)
                | Inr out \<Rightarrow>
                    (case alloc out H1 of
                       (H2, outputs) \<Rightarrow>
                         (case (if dims_0 \<noteq> []
                                then torch_op (\<lambda>t. torch_reshape t (map int dims_0)) outputs H2
                                else (H2, Inr outputs)) of
                            (H3, Inl e) \<Rightarrow> ((H3, [arg]), Inl e)
                          | (H3, Inr outputs') \<Rightarrow>
                              ((set_active_doms outputs' doms H3, [arg]), Inr outputs'))))))"

text \<open>
  \<open>Predicate.Lambda\<close>: \<open>model = LambdaModel(lambda_operator)\<close>, then
  \<open>cls(model)\<close>. The first statement evaluates the name \<open>LambdaModel\<close>, which is
  not a local variable of the method, and calls what it is bound to with the lambda.
  What such a call returns depends on the object bound to the name: the parameter
  \<open>call_global\<close>.
\<close>

definition Lambda ::
  "(string \<Rightarrow> ('a marg \<Rightarrow> error + 'a tensor) \<Rightarrow> error + 'a nn_module)
     \<Rightarrow> ('a marg \<Rightarrow> error + 'a tensor) \<Rightarrow> error + 'a Predicate" where
  "Lambda call_global lambda_operator =
     (case load_global ''LambdaModel'' of
        Inl e \<Rightarrow> Inl e
      | Inr callee \<Rightarrow>
          (case call_global callee lambda_operator of
             Inl e \<Rightarrow> Inl e
           | Inr m \<Rightarrow> Inr \<lparr>model = m\<rparr>))"

text \<open>The loop of \<open>Predicate.MLP\<close> over \<open>range(1, len(layer_dims))\<close>.\<close>

fun MLP_loop :: "nat list \<Rightarrow> nat list \<Rightarrow> layer list \<Rightarrow> layer list" where
  "MLP_loop layer_dims [] layers = layers"
| "MLP_loop layer_dims (i # rest) layers =
     MLP_loop layer_dims rest
       ((layers @ [Linear (layer_dims ! (i - 1)) (layer_dims ! i)])
          @ [if i \<noteq> length layer_dims - 1 then ELU else Sigmoid])"

definition MLP :: "nat list \<Rightarrow> 'a Predicate" where
  "MLP layer_dims = \<lparr>model = Sequential (MLP_loop layer_dims [1..<length layer_dims] [])\<rparr>"

section \<open>The scenario of the spec\<close>

text \<open>
  Two variables over integers, \<open>x\<close> with the individuals 0, 1, 2 and \<open>y\<close> with 0, 1,
  as groundings in the store, and the predicate "\<open>x\<close> equals \<open>y\<close>" as a wrapped
  model: it takes the list of the two flattened tensors and returns one truth value
  per row.
\<close>

definition scenario :: "int heap" where
  "scenario =
     [\<lparr>val = \<lparr>tshape = [3, 1], elems = [0, 1, 2]\<rparr>, active_doms = Some [''x'']\<rparr>,
      \<lparr>val = \<lparr>tshape = [2, 1], elems = [0, 1]\<rparr>, active_doms = Some [''y'']\<rparr>]"

text \<open>Two groundings that bind the same label \<open>x\<close> to two and to three individuals.\<close>

definition conflicting :: "int heap" where
  "conflicting =
     [\<lparr>val = \<lparr>tshape = [2], elems = [10, 20]\<rparr>, active_doms = Some [''x'']\<rparr>,
      \<lparr>val = \<lparr>tshape = [3], elems = [1, 2, 3]\<rparr>, active_doms = Some [''x'']\<rparr>]"

definition equal_rows :: "int marg \<Rightarrow> error + int tensor" where
  "equal_rows a =
     (case a of
        ArgList [x, y] \<Rightarrow>
          Inr \<lparr>tshape = [length (elems x)],
               elems = map2 (\<lambda>u v. if u = v then 1 else 0) (elems x) (elems y)\<rparr>
      | _ \<Rightarrow> Inl TypeError)"

section \<open>Results about Domain\<close>

text \<open>
  Claim C6, as stated, says that every shape that is not a tuple of non-negative integers
  is rejected. The constructor has no sign check: the tuple \<open>(-1,)\<close> is not a tuple of
  non-negative integers, and it is accepted and stored.
\<close>

theorem C6_negative_tuple_accepted:
  "\<not> nonneg_int_tuple (PyTuple [PyInt (- 1)]) \<and>
   Domain_init (PyTuple [PyInt (- 1)]) ''people''
     = Inr \<lparr>shape = PyTuple [PyInt (- 1)], domain_name = ''people''\<rparr>"
  by (simp add: Domain_init_def)

text \<open>
  Claim C6, amended: every tuple of integers, of any sign, is accepted, and shape and name
  are stored unchanged; every list of integers is rejected with \<open>ValueError\<close>, the
  error the constructor raises for an invalid domain.
\<close>

theorem C6_Domain_init_integers:
  "list_all isinstance_int vs \<Longrightarrow>
     Domain_init (PyTuple vs) name = Inr \<lparr>shape = PyTuple vs, domain_name = name\<rparr> \<and>
     Domain_init (PyList vs) name = Inl ValueError"
  by (simp add: Domain_init_def)

theorem C6_Domain_init_integers_witness:
  "list_all isinstance_int [PyInt (- 3), PyInt 4] \<and>
   Domain_init (PyTuple [PyInt (- 3), PyInt 4]) ''d''
     = Inr \<lparr>shape = PyTuple [PyInt (- 3), PyInt 4], domain_name = ''d''\<rparr> \<and>
   Domain_init (PyList [PyInt (- 3), PyInt 4]) ''d'' = Inl ValueError"
  using C6_Domain_init_integers [of "[PyInt (- 3), PyInt 4]" "''d''"] by simp

section \<open>Results about Variable\<close>

text \<open>
  Claim C7 says that axis 0 of a Variable's grounding enumerates its individuals. For a
  scalar domain (shape \<open>()\<close>) and the three individuals 1, 2, 3 the shape check
  passes, the tensor has one axis, and the constructor then views it as shape \<open>(1, 3)\<close>:
  axis 0 has size 1 and its only row holds all three individuals.
\<close>

theorem C7_scalar_domain_one_row:
  "Variable_init ''x'' \<lparr>shape = PyTuple [], domain_name = ''d''\<rparr>
       (Sequence (Seq [Num (1::int), Num 2, Num 3]))
     = Inr \<lparr>grounding = \<lparr>tshape = [1, 3], elems = [1, 2, 3]\<rparr>,
            domain = \<lparr>shape = PyTuple [], domain_name = ''d''\<rparr>,
            variable_name = ''x'', free_variables = [''x'']\<rparr>"
  by (simp add: Variable_init_def torch_index0_def)

text \<open>
  Where axis 0 does enumerate the individuals: a non-empty sequence of individuals that
  all have the domain's shape, for a domain with at least one axis and a name that is
  not reserved. A single individual then gives a leading axis of size 1.
\<close>

lemma torch_tensor_rows:
  assumes "xs \<noteq> []" and "list_all (\<lambda>x. \<exists>t. torch_tensor x = Inr t \<and> tshape t = D) xs"
  shows "torch_tensor (Seq xs)
     = Inr \<lparr>tshape = length xs # D, elems = concat (map (\<lambda>x. elems (projr (torch_tensor x))) xs)\<rparr>"
proof -
  from assms(2) have ok: "\<And>x. x \<in> set xs \<Longrightarrow> \<exists>t. torch_tensor x = Inr t \<and> tshape t = D"
    by (simp add: list_all_iff)
  have "\<not> isl (torch_tensor y)" if "y \<in> set xs" for y
    using ok [OF that] by (elim exE conjE) simp
  then have noerr: "\<not> list_ex isl (map torch_tensor xs)"
    by (auto simp: list_ex_iff)
  from assms(1) obtain x rest where xs: "xs = x # rest" by (cases xs) auto
  have sh: "tshape (projr (torch_tensor y)) = D" if "y \<in> set xs" for y
    using ok [OF that] by auto
  have all: "list_all (\<lambda>u. tshape u = tshape (projr (torch_tensor x)))
      (map (\<lambda>y. projr (torch_tensor y)) rest)"
    using sh xs by (simp add: list_all_iff)
  show ?thesis
    using noerr all sh [of x] unfolding xs
    by (simp add: Let_def comp_def)
qed

lemma Variable_init_batch_axis:
  assumes "xs \<noteq> []" and "list_all (\<lambda>x. \<exists>t. torch_tensor x = Inr t \<and> tshape t = D) xs"
    and "D \<noteq> []" and "size_eq D (shape dmn)" and "take 4 name \<noteq> ''diag''"
  shows "Variable_init name dmn (Sequence (Seq xs))
     = Inr \<lparr>grounding = \<lparr>tshape = length xs # D,
                           elems = concat (map (\<lambda>x. elems (projr (torch_tensor x))) xs)\<rparr>,
            domain = dmn, variable_name = name, free_variables = [name]\<rparr>"
proof -
  from assms(1) have l: "0 < length xs" by simp
  from assms(3) have r: "length (length xs # D) \<noteq> 1" by (cases D) simp_all
  show ?thesis
    unfolding Variable_init_def individuals.case torch_tensor_rows [OF assms(1,2)]
    using l r assms(4,5) by (simp add: torch_index0_def del: torch_tensor.simps)
qed

section \<open>Results about Predicate\<close>

text \<open>
  Claim C1 says that \<open>forward([x, y])\<close> returns the grounding of shape \<open>(n, m)\<close> whose
  entry \<open>(i, j)\<close> is the predicate at \<open>(x_i, y_j)\<close>. In the scenario of the spec the
  crossing does produce the two flattened tensors of the six pairs, on which the
  predicate would give the rows of \<open>[[1,0],[0,1],[0,0]]\<close>; but \<open>forward\<close> then
  evaluates \<open>inputs.shape\<close> on the Python list of the two tensors and raises
  \<open>AttributeError\<close>, before the wrapped model is called.
\<close>

theorem C1_forward_pair_attribute_error:
  "snd (cross_grounding_values first_seen_order [0, 1] True scenario)
     = Inr ([5, 9], [''x'', ''y''], [3, 2]) \<and>
   map (\<lambda>r. val (fst (cross_grounding_values first_seen_order [0, 1] True scenario) ! r)) [5, 9]
     = [\<lparr>tshape = [6, 1], elems = [0, 0, 1, 1, 2, 2]\<rparr>,
        \<lparr>tshape = [6, 1], elems = [0, 1, 0, 1, 0, 1]\<rparr>] \<and>
   equal_rows (ArgList [\<lparr>tshape = [6, 1], elems = [0, 0, 1, 1, 2, 2]\<rparr>,
                        \<lparr>tshape = [6, 1], elems = [0, 1, 0, 1, 0, 1]\<rparr>])
     = Inr \<lparr>tshape = [6], elems = [1, 0, 0, 1, 0, 0]\<rparr> \<and>
   snd (forward first_seen_order run_layers \<lparr>model = Module equal_rows []\<rparr> (Many [0, 1]) scenario)
     = Inl AttributeError \<and>
   snd (fst (forward first_seen_order run_layers \<lparr>model = Module equal_rows []\<rparr> (Many [0, 1])
          scenario)) = []"
  by code_simp

text \<open>
  Claim C10 says that on a list of groundings the wrapped model is called once, with the
  list of flattened tensors. On every list, with every model, \<open>forward\<close> ends in an
  exception and the model has not been called: when the crossing succeeds,
  \<open>inputs.shape\<close> fails on the list.
\<close>

theorem C10_forward_list_model_not_called:
  "snd (fst (forward set_order run_layers self (Many gs) H)) = [] \<and>
   isl (snd (forward set_order run_layers self (Many gs) H))"
  by (simp add: forward_def split: prod.splits sum.splits)

lemma MLP_loop_eq:
  "MLP_loop dims is acc =
     acc @ concat (map (\<lambda>i. [Linear (dims ! (i - 1)) (dims ! i),
                                if i \<noteq> length dims - 1 then ELU else Sigmoid]) is)"
  by (induction "is" arbitrary: acc) simp_all

lemma length_concat_pairs: "length (concat (map (\<lambda>i. [f i, g i]) xs)) = 2 * length xs"
  by (induction xs) simp_all

lemma nth_concat_pairs:
  "k < length xs \<Longrightarrow>
     concat (map (\<lambda>i. [f i, g i]) xs) ! (2 * k) = f (xs ! k) \<and>
     concat (map (\<lambda>i. [f i, g i]) xs) ! Suc (2 * k) = g (xs ! k)"
proof (induction xs arbitrary: k)
  case Nil
  then show ?case by simp
next
  case (Cons x xs)
  show ?case
  proof (cases k)
    case 0
    then show ?thesis by simp
  next
    case (Suc j)
    with Cons.prems have "j < length xs" by simp
    from Cons.IH [OF this] Suc show ?thesis by simp
  qed
qed

text \<open>
  Claim C8 says that \<open>Predicate.Lambda(fn)\<close> succeeds and returns a predicate that
  applies \<open>fn\<close>. The method evaluates the name \<open>LambdaModel\<close>, which \<open>core.py\<close>
  neither defines nor imports and which is no builtin: whatever the lambda, and whatever
  a call of a bound name would return, the call raises \<open>NameError\<close> and no predicate
  is built.
\<close>

theorem C8_Lambda_name_error:
  "load_global ''LambdaModel'' = Inl NameError \<and> Lambda call_global fn = Inl NameError"
  by (simp add: Lambda_def load_global_def core_globals_def builtins_def)

text \<open>
  \<open>Predicate.MLP\<close> does what the same claim says of it: it returns a predicate that
  wraps a \<open>Sequential\<close> with, for every consecutive pair of \<open>layer_dims\<close>, a
  \<open>Linear\<close> layer between the two widths followed by an activation, \<open>ELU\<close> after
  every layer but the last and \<open>Sigmoid\<close> after the last.
\<close>

lemma MLP_layers:
  "\<exists>ls. model (MLP layer_dims :: 'b Predicate) = Sequential ls \<and>
      length ls = 2 * (length layer_dims - 1) \<and>
      (\<forall>k. k < length layer_dims - 1 \<longrightarrow>
         ls ! (2 * k) = Linear (layer_dims ! k) (layer_dims ! Suc k) \<and>
         ls ! Suc (2 * k) = (if Suc k = length layer_dims - 1 then Sigmoid else ELU))"
proof -
  let ?f = "\<lambda>i. Linear (layer_dims ! (i - 1)) (layer_dims ! i)"
  let ?g = "\<lambda>i. if i \<noteq> length layer_dims - 1 then ELU else Sigmoid"
  let ?ls = "concat (map (\<lambda>i. [?f i, ?g i]) [1..<length layer_dims])"
  have m: "model (MLP layer_dims :: 'b Predicate) = Sequential ?ls"
    by (simp add: MLP_def MLP_loop_eq)
  have len: "length ?ls = 2 * (length layer_dims - 1)"
    by (simp only: length_concat_pairs length_upt)
  have nth: "?ls ! (2 * k) = Linear (layer_dims ! k) (layer_dims ! Suc k) \<and>
        ?ls ! Suc (2 * k) = (if Suc k = length layer_dims - 1 then Sigmoid else ELU)"
    if "k < length layer_dims - 1" for k
  proof -
    from that have k: "k < length [1..<length layer_dims]" by simp
    from that have "[1..<length layer_dims] ! k = Suc k" by simp
    with nth_concat_pairs [OF k, of ?f ?g] show ?thesis by auto
  qed
  show ?thesis
    using m len nth by blast
qed

lemma MLP_default:
  "model (MLP [16, 16, 1] :: int Predicate)
     = Sequential [Linear 16 16, ELU, Linear 16 1, Sigmoid] \<and>
   parameters (model (MLP [16, 16, 1] :: int Predicate)) = [[16, 16], [16], [1, 16], [1]]"
  by (simp add: MLP_def upt_rec)

section \<open>The store under the broadcasting engine\<close>

text \<open>
  Every step of \<open>cross_grounding_values\<close> either appends an object to the store or
  sets the attribute of the object it has just appended: the store before the call is
  a prefix of the store after it.
\<close>

lemma prefix_nth: "prefix xs ys \<Longrightarrow> i < length xs \<Longrightarrow> ys ! i = xs ! i"
  by (auto simp: prefix_def nth_append)

lemma torch_opE:
  assumes "torch_op f r H = (H', res)"
  obtains (err) e where "f (val (H ! r)) = Inl e" "H' = H" "res = Inl e"
  | (ok) t where "f (val (H ! r)) = Inr t" "H' = H @ [\<lparr>val = t, active_doms = None\<rparr>]"
      "res = Inr (length H)"
  using assms by (auto simp: torch_op_def alloc_def split: sum.splits)

lemma add_new_doms_frame:
  "add_new_doms d nds g dig H = (H', res) \<Longrightarrow>
     prefix H H' \<and>
     (\<forall>g' dig'. res = Inr (g', dig') \<longrightarrow>
        dig' = dig @ nds \<and>
        (g' = g \<and> H' = H \<or> length H \<le> g' \<and> g' < length H' \<and> active_doms (H' ! g') = None))"
proof (induction nds arbitrary: g dig H)
  case Nil
  then show ?case by auto
next
  case (Cons nd rest)
  from Cons.prems show ?case
  proof (cases "torch_op (\<lambda>t. torch_unsqueeze t (length dig)) g H")
    case (Pair H1 r1)
    show ?thesis
    proof (cases r1)
      case (Inl e)
      with Pair Cons.prems show ?thesis
        by (auto elim!: torch_opE)
    next
      case (Inr g1)
      with Pair have H1: "H1 = H @ [H1 ! length H]" "g1 = length H" "active_doms (H1 ! g1) = None"
        by (auto elim!: torch_opE)
      show ?thesis
      proof (cases "dict_get d nd")
        case (Inl e)
        with Pair \<open>r1 = Inr g1\<close> Cons.prems H1 show ?thesis
          by (auto simp: prefix_def)
      next
        case n: (Inr n)
        show ?thesis
        proof (cases "torch_op (\<lambda>t. torch_repeat_interleave t n (length dig)) g1 H1")
          case P2: (Pair H2 r2)
          show ?thesis
          proof (cases r2)
            case (Inl e)
            with P2 Pair \<open>r1 = Inr g1\<close> n Cons.prems H1 show ?thesis
              by (auto elim!: torch_opE simp: prefix_def)
          next
            case g2: (Inr g2)
            with P2 have H2: "H2 = H1 @ [H2 ! length H1]" "g2 = length H1" "active_doms (H2 ! g2) = None"
              by (auto elim!: torch_opE)
            from Cons.prems Pair \<open>r1 = Inr g1\<close> n P2 g2
            have rec: "add_new_doms d rest g2 (dig @ [nd]) H2 = (H', res)"
              by simp
            from Cons.IH [OF rec] have IH: "prefix H2 H'"
              "\<And>g' dig'. res = Inr (g', dig') \<Longrightarrow> dig' = (dig @ [nd]) @ rest \<and>
                 (g' = g2 \<and> H' = H2 \<or> length H2 \<le> g' \<and> g' < length H' \<and> active_doms (H' ! g') = None)"
              by blast+
            have p: "prefix H H2" using H1(1) H2(1) by (metis prefixI prefix_order.trans)
            have l: "length H < length H1" "length H1 < length H2"
              using H1(1) H2(1) by (metis length_append_singleton lessI)+
            show ?thesis
            proof (intro conjI allI impI)
              show "prefix H H'" using p IH(1) by (rule prefix_order.trans)
            next
              fix g' dig' assume r: "res = Inr (g', dig')"
              from IH(2) [OF r] show "dig' = dig @ nd # rest" by simp
              from IH(2) [OF r] H2 l
              show "g' = g \<and> H' = H \<or> length H \<le> g' \<and> g' < length H' \<and> active_doms (H' ! g') = None"
                by auto
            qed
          qed
        qed
      qed
    qed
  qed
qed


lemma set_active_doms_last:
  "set_active_doms (length H) ds (H @ [x]) = H @ [x\<lparr>active_doms := Some ds\<rparr>]"
  by (simp add: set_active_doms_def)

lemma cross_grounding_frame:
  assumes "cross_grounding so d doms fl g H = (H', res)"
  shows "prefix H H' \<and>
     (\<forall>r. res = Inr r \<longrightarrow>
        length H \<le> r \<and> r < length H' \<and>
        active_doms (H' ! r) = (if fl then None else Some doms))"
proof (cases "get_active_doms H g")
  case (Inl e)
  with assms show ?thesis by (auto simp: cross_grounding_def)
next
  case ds: (Inr ds)
  show ?thesis
  proof (cases "add_new_doms d (so doms ds) g ds H")
    case P1: (Pair H1 r1)
    from add_new_doms_frame [OF P1] have p1: "prefix H H1" by blast
    then have l1: "length H \<le> length H1" by (rule prefix_length_le)
    show ?thesis
    proof (cases r1)
      case (Inl e)
      with assms ds P1 p1 show ?thesis by (auto simp: cross_grounding_def)
    next
      case (Inr gd)
      obtain g1 dig where gd: "gd = (g1, dig)" by (cases gd)
      show ?thesis
      proof (cases "index_each dig doms")
        case (Inl e)
        with assms ds P1 \<open>r1 = Inr gd\<close> gd p1 show ?thesis by (auto simp: cross_grounding_def)
      next
        case idxs: (Inr idxs)
        let ?perm = "idxs @ [length dig ..< length (tshape (val (H1 ! g1)))]"
        show ?thesis
        proof (cases "torch_op (\<lambda>t. torch_permute t ?perm) g1 H1")
          case P2: (Pair H2 r2)
          show ?thesis
          proof (cases r2)
            case (Inl e)
            with P2 have "H2 = H1" by (auto elim!: torch_opE)
            with assms ds P1 \<open>r1 = Inr gd\<close> gd idxs P2 Inl p1 show ?thesis
              by (auto simp: cross_grounding_def)
          next
            case g2: (Inr g2)
            with P2 obtain t where H2: "H2 = H1 @ [\<lparr>val = t, active_doms = None\<rparr>]" "g2 = length H1"
              by (auto elim!: torch_opE)
            let ?H3 = "H1 @ [\<lparr>val = t, active_doms = Some doms\<rparr>]"
            have H3: "set_active_doms g2 doms H2 = ?H3"
              unfolding H2 by (simp add: set_active_doms_last)
            have p3: "prefix H ?H3" using p1 by (simp add: prefix_def) (metis append.assoc)
            show ?thesis
            proof (cases fl)
              case False
              with assms ds P1 \<open>r1 = Inr gd\<close> gd idxs P2 g2 H3
              have "H' = ?H3" "res = Inr g2" by (simp_all add: cross_grounding_def)
              with p3 H2 l1 False show ?thesis by auto
            next
              case True
              with assms ds P1 \<open>r1 = Inr gd\<close> gd idxs P2 g2 H3
              have op: "torch_op (\<lambda>t. torch_reshape t (- 1 # map int (drop (length dig) (tshape t)))) g2 ?H3
                    = (H', res)" by (simp add: cross_grounding_def)
              then show ?thesis
              proof (cases rule: torch_opE)
                case (err e)
                with p3 show ?thesis by auto
              next
                case (ok u)
                have "prefix ?H3 H'" unfolding ok(2) by (rule prefixI) (rule refl)
                with p3 have "prefix H H'" by (rule prefix_order.trans)
                moreover have "active_doms (H' ! length ?H3) = None"
                  unfolding ok(2) by (simp only: nth_append_length) simp
                moreover have "length H \<le> length ?H3" "length ?H3 < length H'"
                  using l1 unfolding ok(2) by simp_all
                ultimately show ?thesis using ok(3) True by auto
              qed
            qed
          qed
        qed
      qed
    qed
  qed
qed

lemma cross_loop_frame:
  "cross_loop so d doms fl gs acc H = (H', res) \<Longrightarrow>
     prefix H H' \<and>
     (\<forall>outs. res = Inr outs \<longrightarrow>
        (\<exists>new. outs = acc @ new \<and> length new = length gs \<and>
           list_all (\<lambda>r. length H \<le> r \<and> r < length H' \<and>
                         active_doms (H' ! r) = (if fl then None else Some doms)) new))"
proof (induction gs arbitrary: acc H)
  case Nil
  then show ?case by auto
next
  case (Cons g rest)
  show ?case
  proof (cases "cross_grounding so d doms fl g H")
    case (Pair H1 r1)
    from cross_grounding_frame [OF Pair] have f1: "prefix H H1"
      "\<And>r. r1 = Inr r \<Longrightarrow> length H \<le> r \<and> r < length H1 \<and>
              active_doms (H1 ! r) = (if fl then None else Some doms)" by blast+
    show ?thesis
    proof (cases r1)
      case (Inl e)
      with Pair Cons.prems f1 show ?thesis by auto
    next
      case (Inr r)
      with Pair Cons.prems have rec: "cross_loop so d doms fl rest (acc @ [r]) H1 = (H', res)"
        by simp
      from Cons.IH [OF rec] have IH: "prefix H1 H'"
        "\<And>outs. res = Inr outs \<Longrightarrow> \<exists>new. outs = (acc @ [r]) @ new \<and> length new = length rest \<and>
           list_all (\<lambda>r. length H1 \<le> r \<and> r < length H' \<and>
                         active_doms (H' ! r) = (if fl then None else Some doms)) new" by blast+
      have l: "length H \<le> length H1" "length H1 \<le> length H'"
        using f1(1) IH(1) by (simp_all add: prefix_length_le)
      show ?thesis
      proof (intro conjI allI impI)
        show "prefix H H'" using f1(1) IH(1) by (rule prefix_order.trans)
      next
        fix outs assume o: "res = Inr outs"
        from IH(2) [OF o] obtain new where new: "outs = (acc @ [r]) @ new" "length new = length rest"
          "list_all (\<lambda>r. length H1 \<le> r \<and> r < length H' \<and>
                         active_doms (H' ! r) = (if fl then None else Some doms)) new" by blast
        from f1(2) [OF Inr] have r: "length H \<le> r" "r < length H1"
          "active_doms (H1 ! r) = (if fl then None else Some doms)" by simp_all
        have "H' ! r = H1 ! r" using IH(1) r(2) by (rule prefix_nth)
        with r l have "length H \<le> r \<and> r < length H' \<and>
            active_doms (H' ! r) = (if fl then None else Some doms)" by simp
        moreover from new(3) l have "list_all (\<lambda>r. length H \<le> r \<and> r < length H' \<and>
                         active_doms (H' ! r) = (if fl then None else Some doms)) new"
          by (auto simp: list_all_iff)
        ultimately show "\<exists>new. outs = acc @ new \<and> length new = length (g # rest) \<and>
           list_all (\<lambda>r. length H \<le> r \<and> r < length H' \<and>
                         active_doms (H' ! r) = (if fl then None else Some doms)) new"
          using new(1,2) by (intro exI [of _ "r # new"]) simp
      qed
    qed
  qed
qed

lemma cross_grounding_values_frame:
  assumes "cross_grounding_values so gs fl H = (H', res)"
  shows "prefix H H'"
    and "res = Inr (outs, doms, dims0) \<Longrightarrow>
       length outs = length gs \<and>
       list_all (\<lambda>r. length H \<le> r \<and> r < length H' \<and>
                     active_doms (H' ! r) = (if fl then None else Some doms)) outs"
proof -
  show "prefix H H'"
    using assms cross_loop_frame [of so _ _ fl gs "[]" H]
    by (auto simp: cross_grounding_values_def Let_def split: sum.splits prod.splits)
  assume "res = Inr (outs, doms, dims0)"
  with assms cross_loop_frame [of so _ doms fl gs "[]" H H' "Inr outs"]
  show "length outs = length gs \<and>
       list_all (\<lambda>r. length H \<le> r \<and> r < length H' \<and>
                     active_doms (H' ! r) = (if fl then None else Some doms)) outs"
    by (auto simp: cross_grounding_values_def Let_def split: sum.splits prod.splits)
qed


lemma scenario_crossed:
  "snd (cross_grounding_values first_seen_order [0, 1] False scenario)
     = Inr ([4, 7], [''x'', ''y''], [3, 2])"
  by code_simp

lemma scenario_crossed_flat:
  "snd (cross_grounding_values first_seen_order [0, 1] True scenario)
     = Inr ([5, 9], [''x'', ''y''], [3, 2])"
  by code_simp

lemma wf_scenario: "wf_groundings scenario [0, 1]"
  by (simp add: wf_groundings_def wf_grounding_def scenario_def)

text \<open>
  Claim C9: \<open>cross_grounding_values\<close> does not change its input groundings. Whatever
  the outcome, every object that was in the store before the call, and so every input
  grounding, has afterwards the elements, the shape and the \<open>active_doms\<close> it had
  before; and when the call returns, it returns one tensor per input and every returned
  tensor is an object created by the call, none of them an input.
\<close>

theorem C9_inputs_untouched_outputs_fresh:
  assumes "cross_grounding_values set_order gs flatten_dim0 H = (H', res)"
    and "wf_groundings H gs"
  shows "take (length H) H' = H \<and> list_all (\<lambda>g. H' ! g = H ! g) gs \<and>
    (case res of
       Inl e \<Rightarrow> True
     | Inr (outs, doms, dims0) \<Rightarrow>
         length outs = length gs \<and>
         list_all (\<lambda>r. length H \<le> r \<and> r < length H' \<and> r \<notin> set gs) outs)"
proof -
  from assms(1) have p: "prefix H H'" by (rule cross_grounding_values_frame(1))
  then have t: "take (length H) H' = H" by (auto simp: prefix_def)
  from assms(2) have lt: "\<And>g. g \<in> set gs \<Longrightarrow> g < length H"
    by (simp add: wf_groundings_def list_all_iff)
  with p have same: "list_all (\<lambda>g. H' ! g = H ! g) gs"
    by (simp add: list_all_iff prefix_nth)
  have "length outs = length gs \<and>
         list_all (\<lambda>r. length H \<le> r \<and> r < length H' \<and> r \<notin> set gs) outs"
    if "res = Inr (outs, doms, dims0)" for outs doms dims0
  proof -
    from cross_grounding_values_frame(2) [OF assms(1) that]
    have "length outs = length gs"
      and "\<And>r. r \<in> set outs \<Longrightarrow> length H \<le> r \<and> r < length H'"
      by (simp_all add: list_all_iff)
    with lt show ?thesis by (fastforce simp: list_all_iff)
  qed
  with t same show ?thesis by (auto split: sum.splits)
qed

theorem C9_inputs_untouched_outputs_fresh_witness:
  "wf_groundings scenario [0, 1] \<and>
   snd (cross_grounding_values first_seen_order [0, 1] False scenario)
     = Inr ([4, 7], [''x'', ''y''], [3, 2]) \<and>
   take (length scenario) (fst (cross_grounding_values first_seen_order [0, 1] False scenario))
     = scenario \<and>
   list_all (\<lambda>r. length scenario \<le> r \<and> r \<notin> set [0, 1]) [4, 7]"
proof -
  let ?c = "cross_grounding_values first_seen_order [0, 1] False scenario"
  have h: "?c = (fst ?c, snd ?c)" by simp
  from C9_inputs_untouched_outputs_fresh [OF h wf_scenario] scenario_crossed wf_scenario
  show ?thesis by (simp add: list_all_iff)
qed

text \<open>
  Claim C3, as stated, says that with \<open>flatten_dim0=True\<close> every returned tensor has
  the attribute \<open>active_doms\<close>, equal to the canonical domain list. In the scenario of
  the spec the flattened call returns the two tensors of the six pairs and the list
  \<open>['x', 'y']\<close>, and neither tensor has the attribute.
\<close>

theorem C3_flattened_scenario_no_active_doms:
  "snd (cross_grounding_values first_seen_order [0, 1] True scenario)
     = Inr ([5, 9], [''x'', ''y''], [3, 2]) \<and>
   map (\<lambda>r. active_doms (fst (cross_grounding_values first_seen_order [0, 1] True scenario) ! r))
     [5, 9] = [None, None] \<and>
   \<not> list_all (\<lambda>r. active_doms (fst (cross_grounding_values first_seen_order [0, 1] True
                        scenario) ! r) = Some [''x'', ''y'']) [5, 9]"
  by code_simp

text \<open>
  Claim C3, amended: the attribute is set on the permuted tensor, and with
  \<open>flatten_dim0=True\<close> the tensor returned is the result of the \<open>torch.reshape\<close>
  that follows, a new object; the domain list is returned beside the tensors. Whenever
  the call returns, with \<open>flatten_dim0=True\<close> no returned tensor has the attribute
  \<open>active_doms\<close>, and with \<open>flatten_dim0=False\<close> every returned tensor has it,
  equal to the returned list of domains.
\<close>

theorem C3_flattened_outputs_lose_active_doms:
  assumes "cross_grounding_values set_order gs flatten_dim0 H = (H', Inr (outs, doms, dims0))"
  shows "list_all (\<lambda>r. r < length H' \<and>
            active_doms (H' ! r) = (if flatten_dim0 then None else Some doms)) outs"
  using cross_grounding_values_frame(2) [OF assms refl] by (simp add: list_all_iff)

theorem C3_flattened_outputs_lose_active_doms_witness:
  "snd (cross_grounding_values first_seen_order [0, 1] True scenario)
     = Inr ([5, 9], [''x'', ''y''], [3, 2]) \<and>
   list_all (\<lambda>r. active_doms (fst (cross_grounding_values first_seen_order [0, 1] True scenario) ! r)
                   = None) [5, 9]"
proof -
  let ?c = "cross_grounding_values first_seen_order [0, 1] True scenario"
  have h: "?c = (fst ?c, Inr ([5, 9], [''x'', ''y''], [3, 2]))"
    using scenario_crossed_flat by (simp add: prod_eq_iff)
  from C3_flattened_outputs_lose_active_doms [OF h] scenario_crossed_flat
  show ?thesis by (simp add: list_all_iff)
qed




section \<open>Tensor operations that leave the values in place\<close>

text \<open>
  Permuting with the identity returns the tensor; a grounding that already has every
  canonical domain, in canonical order, is copied; a grounding without domains is
  repeated along one new leading axis.
\<close>

lemma length_unravel: "length (unravel sh k) = length sh"
  by (induction sh arbitrary: k) simp_all

lemma ravel_unravel: "k < prod_list sh \<Longrightarrow> ravel sh (unravel sh k) = k"
proof (induction sh arbitrary: k)
  case Nil
  then show ?case by simp
next
  case (Cons s ss)
  from Cons.prems have "0 < prod_list ss" by (cases "prod_list ss = 0") simp_all
  then have "k mod prod_list ss < prod_list ss" by simp
  from Cons.IH [OF this] show ?case by simp
qed

lemma pos_nth: "distinct xs \<Longrightarrow> i < length xs \<Longrightarrow> pos xs (xs ! i) = i"
proof (induction xs arbitrary: i)
  case Nil
  then show ?case by simp
next
  case (Cons x xs)
  then show ?case by (cases i) auto
qed

lemma pos_less: "x \<in> set xs \<Longrightarrow> pos xs x < length xs"
  by (induction xs) auto

lemma nth_pos: "x \<in> set xs \<Longrightarrow> xs ! pos xs x = x"
  by (induction xs) auto

lemma map_pos_self: "distinct xs \<Longrightarrow> map (pos xs) xs = [0..<length xs]"
  by (rule nth_equalityI) (simp_all add: pos_nth)


lemma idx_id: "map (\<lambda>ax. unravel sh k ! pos [0..<length sh] ax) [0..<length sh] = unravel sh k"
proof (rule nth_equalityI)
  show "length (map (\<lambda>ax. unravel sh k ! pos [0..<length sh] ax) [0..<length sh]) = length (unravel sh k)"
    by (simp add: length_unravel)
next
  fix i assume "i < length (map (\<lambda>ax. unravel sh k ! pos [0..<length sh] ax) [0..<length sh])"
  then have i: "i < length sh" by simp
  then have "pos [0..<length sh] i = i" using pos_nth [of "[0..<length sh]" i] by simp
  with i show "map (\<lambda>ax. unravel sh k ! pos [0..<length sh] ax) [0..<length sh] ! i = unravel sh k ! i"
    by simp
qed

lemma elems_id:
  assumes "length xs = prod_list sh"
  shows "map (\<lambda>k. xs ! ravel sh (unravel sh k)) [0..<prod_list sh] = xs"
proof (rule nth_equalityI)
  show "length (map (\<lambda>k. xs ! ravel sh (unravel sh k)) [0..<prod_list sh]) = length xs"
    using assms by simp
next
  fix i assume "i < length (map (\<lambda>k. xs ! ravel sh (unravel sh k)) [0..<prod_list sh])"
  then have "i < prod_list sh" by simp
  then show "map (\<lambda>k. xs ! ravel sh (unravel sh k)) [0..<prod_list sh] ! i = xs ! i"
    by (simp add: ravel_unravel)
qed

lemma permute_check_None:
  "list_all (\<lambda>p. p < n) perm \<Longrightarrow> distinct perm \<Longrightarrow> set perm \<inter> set seen = {}
     \<Longrightarrow> permute_check n seen perm = None"
  by (induction perm arbitrary: seen) auto

lemma torch_permute_valid:
  assumes "length perm = length (tshape t)" and "distinct perm"
    and "list_all (\<lambda>p. p < length (tshape t)) perm"
  shows "torch_permute t perm
     = Inr \<lparr>tshape = map (\<lambda>p. tshape t ! p) perm,
           elems = map (\<lambda>k. elems t ! ravel (tshape t)
                      (map (\<lambda>ax. unravel (map (\<lambda>p. tshape t ! p) perm) k ! pos perm ax)
                         [0..<length (tshape t)]))
                     [0..<prod_list (map (\<lambda>p. tshape t ! p) perm)]\<rparr>"
proof -
  have "permute_check (length (tshape t)) [] perm = None"
    using assms(3,2) by (rule permute_check_None) simp
  then show ?thesis
    unfolding torch_permute_def Let_def using assms(1) by simp
qed

lemma torch_permute_id:
  assumes "length (elems t) = prod_list (tshape t)"
  shows "torch_permute t [0..<length (tshape t)] = Inr t"
proof -
  have c: "list_all (\<lambda>p. p < length (tshape t)) [0..<length (tshape t)]"
    by (simp add: list_all_iff)
  have "torch_permute t [0..<length (tshape t)]
     = Inr \<lparr>tshape = map (\<lambda>p. tshape t ! p) [0..<length (tshape t)],
           elems = map (\<lambda>k. elems t ! ravel (tshape t)
                      (map (\<lambda>ax. unravel (map (\<lambda>p. tshape t ! p) [0..<length (tshape t)]) k
                                    ! pos [0..<length (tshape t)] ax) [0..<length (tshape t)]))
                     [0..<prod_list (map (\<lambda>p. tshape t ! p) [0..<length (tshape t)])]\<rparr>"
    by (rule torch_permute_valid [OF _ _ c]) simp_all
  also have "\<dots> = Inr \<lparr>tshape = tshape t, elems = elems t\<rparr>"
    unfolding map_nth idx_id elems_id [OF assms] ..
  finally show ?thesis by simp
qed

lemma index_each_self: "distinct ds \<Longrightarrow> index_each ds ds = Inr [0..<length ds]"
  by (simp add: index_each_def list_all_iff map_pos_self)

lemma torch_op_ok:
  "f (val (H ! r)) = Inr t \<Longrightarrow> torch_op f r H = (H @ [\<lparr>val = t, active_doms = None\<rparr>], Inr (length H))"
  by (simp add: torch_op_def alloc_def)


lemma distinct_singleton: "distinct xs \<Longrightarrow> set xs = {x} \<Longrightarrow> xs = [x]"
proof (cases xs)
  case Nil
  assume "set xs = {x}" with Nil show ?thesis by simp
next
  case (Cons y ys)
  assume d: "distinct xs" and s: "set xs = {x}"
  from s Cons have "y \<in> {x}" by (metis list.set_intros(1))
  then have y: "y = x" by simp
  have "ys = []"
  proof (cases ys)
    case Nil
    then show ?thesis .
  next
    case (Cons z zs)
    with s \<open>xs = y # ys\<close> have "z \<in> {x}" by (metis list.set_intros(1) list.set_intros(2))
    with y d \<open>xs = y # ys\<close> Cons show ?thesis by simp
  qed
  with Cons y show ?thesis by simp
qed


lemma set_order_okD:
  "set_order_ok so \<Longrightarrow> distinct (so doms ds)"
  "set_order_ok so \<Longrightarrow> set (so doms ds) = set doms - set ds"
  unfolding set_order_ok_def by blast+

lemma set_order_empty:
  assumes "set_order_ok so" and "set doms \<subseteq> set ds"
  shows "so doms ds = []"
proof -
  from assms(2) have "set (so doms ds) = {}"
    unfolding set_order_okD(2) [OF assms(1)] by blast
  then show ?thesis by simp
qed

lemma set_order_single:
  assumes "set_order_ok so"
  shows "so [x] [] = [x]"
proof (rule distinct_singleton)
  show "distinct (so [x] [])" using assms by (rule set_order_okD(1))
  show "set (so [x] []) = {x}" unfolding set_order_okD(2) [OF assms] by simp
qed


lemma cross_grounding_same:
  assumes "active_doms (H ! g) = Some doms" and "distinct doms"
    and "length doms \<le> length (tshape (val (H ! g)))"
    and "length (elems (val (H ! g))) = prod_list (tshape (val (H ! g)))"
    and "set_order_ok so"
  shows "cross_grounding so d doms False g H
     = (H @ [\<lparr>val = val (H ! g), active_doms = Some doms\<rparr>], Inr (length H))"
proof -
  have perm: "[0..<length doms] @ [length doms..<length (tshape (val (H ! g)))]
      = [0..<length (tshape (val (H ! g)))]"
    using assms(3) upt_add_eq_append [of 0 "length doms" "length (tshape (val (H ! g))) - length doms"]
    by simp
  have nds: "so doms doms = []" using assms(5) by (rule set_order_empty) simp
  have ga: "get_active_doms H g = Inr doms" by (simp add: get_active_doms_def assms(1))
  have op: "torch_op (\<lambda>t. torch_permute t [0..<length (tshape (val (H ! g)))]) g H
      = (H @ [\<lparr>val = val (H ! g), active_doms = None\<rparr>], Inr (length H))"
    by (rule torch_op_ok) (rule torch_permute_id [OF assms(4)])
  show ?thesis
    by (simp add: cross_grounding_def ga nds index_each_self [OF assms(2)] perm op
        set_active_doms_last)
qed


lemma concat_replicate_Nil: "concat (replicate n []) = []"
  by (induction n) simp_all

lemma length_concat_replicate: "length (concat (replicate n xs)) = n * length xs"
  by (induction n) simp_all

lemma chunks_whole:
  "concat (map (\<lambda>b. concat (replicate n b)) (chunks (length xs) xs)) = concat (replicate n xs)"
proof (cases "xs = []")
  case True
  then show ?thesis by (simp add: chunks.simps [of 0] concat_replicate_Nil)
next
  case False
  then have "chunks (length xs) xs = [xs]"
    by (simp add: chunks.simps [of "length xs" xs] chunks.simps [of "length xs" "[]"])
  then show ?thesis by simp
qed

lemma row_of_replicate:
  "i < n \<Longrightarrow> take (length xs) (drop (i * length xs) (concat (replicate n xs))) = xs"
proof (induction n arbitrary: i)
  case 0
  then show ?case by simp
next
  case (Suc n)
  show ?case
  proof (cases i)
    case 0
    then show ?thesis by simp
  next
    case (Suc j)
    with Suc.prems have "j < n" by simp
    from Suc.IH [OF this] Suc show ?thesis by simp
  qed
qed

lemma cross_grounding_constant:
  assumes "active_doms (H ! c) = Some []"
    and "length (elems (val (H ! c))) = prod_list (tshape (val (H ! c)))"
    and "set_order_ok so"
  shows "cross_grounding so [(x, n)] [x] False c H
     = (H @ [\<lparr>val = \<lparr>tshape = Suc 0 # tshape (val (H ! c)), elems = elems (val (H ! c))\<rparr>,
               active_doms = None\<rparr>,
             \<lparr>val = \<lparr>tshape = n # tshape (val (H ! c)),
                     elems = concat (replicate n (elems (val (H ! c))))\<rparr>,
               active_doms = None\<rparr>,
             \<lparr>val = \<lparr>tshape = n # tshape (val (H ! c)),
                     elems = concat (replicate n (elems (val (H ! c))))\<rparr>,
               active_doms = Some [x]\<rparr>],
         Inr (Suc (Suc (length H))))"
proof -
  let ?C = "tshape (val (H ! c))" and ?E = "elems (val (H ! c))"
  let ?t1 = "\<lparr>tshape = Suc 0 # ?C, elems = ?E\<rparr>"
  let ?t2 = "\<lparr>tshape = n # ?C, elems = concat (replicate n ?E)\<rparr>"
  let ?H1 = "H @ [\<lparr>val = ?t1, active_doms = None\<rparr>]"
  let ?H2 = "?H1 @ [\<lparr>val = ?t2, active_doms = None\<rparr>]"
  have ga: "get_active_doms H c = Inr []" by (simp add: get_active_doms_def assms(1))
  have nds: "so [x] [] = [x]" using assms(3) by (rule set_order_single)
  have op1: "torch_op (\<lambda>t. torch_unsqueeze t 0) c H = (?H1, Inr (length H))"
    by (rule torch_op_ok) (simp add: torch_unsqueeze_def)
  have rep: "torch_repeat_interleave ?t1 n 0 = Inr ?t2"
    by (simp add: torch_repeat_interleave_def chunks_whole [of n ?E, unfolded assms(2)])
  have op2: "torch_op (\<lambda>t. torch_repeat_interleave t n 0) (length H) ?H1
      = (?H2, Inr (length ?H1))"
    by (rule torch_op_ok) (simp add: rep)
  have add: "add_new_doms [(x, n)] [x] c [] H = (?H2, Inr (Suc (length H), [x]))"
    by (simp add: op1 op2 dict_get_def)
  have wf2: "length (elems ?t2) = prod_list (tshape ?t2)"
    by (simp add: length_concat_replicate assms(2))
  have perm: "[0] @ [length [x]..<length (tshape (val (?H2 ! Suc (length H))))]
      = [0..<length (tshape ?t2)]"
    by (simp add: nth_append upt_conv_Cons del: upt_Suc)
  have op3: "torch_op (\<lambda>t. torch_permute t [0..<length (tshape ?t2)]) (Suc (length H)) ?H2
      = (?H2 @ [\<lparr>val = ?t2, active_doms = None\<rparr>], Inr (length ?H2))"
    by (rule torch_op_ok) (use torch_permute_id [OF wf2] in \<open>simp add: nth_append del: upt_Suc\<close>)
  have ie: "index_each [x] [x] = Inr [0]" using index_each_self [of "[x]"] by simp
  have sa: "set_active_doms (length ?H2) [x] (?H2 @ [\<lparr>val = ?t2, active_doms = None\<rparr>])
      = ?H2 @ [\<lparr>val = ?t2, active_doms = Some [x]\<rparr>]"
    by (simp only: set_active_doms_last) simp
  have "cross_grounding so [(x, n)] [x] False c H
      = (?H2 @ [\<lparr>val = ?t2, active_doms = Some [x]\<rparr>], Inr (length ?H2))"
    by (simp only: cross_grounding_def ga nds add ie perm op3 sa
        sum.case prod.case Let_def if_False)
  then show ?thesis by simp
qed




section \<open>Results about the broadcasting engine\<close>

text \<open>
  The engine reads \<open>grounding.active_doms\<close> of every input. A tensor on which no
  \<open>active_doms\<close> has been set is not accepted.
\<close>

lemma cross_grounding_values_no_attribute:
  "active_doms (H ! g) = None \<Longrightarrow>
     cross_grounding_values set_order (g # gs) flatten_dim0 H = (H, Inl AttributeError)"
  by (simp add: cross_grounding_values_def get_active_doms_def)

lemma alloc_no_attribute:
  "alloc t H = (H', g) \<Longrightarrow> active_doms (H' ! g) = None"
  by (auto simp: alloc_def)

lemma alloc_keeps:
  "alloc t H = (H', g) \<Longrightarrow> r < length H \<Longrightarrow> H' ! r = H ! r"
  by (auto simp: alloc_def nth_append)

text \<open>
  Claim C4 says that for every Variable \<open>x\<close>, passing its grounding twice raises no
  error and gives one axis for \<open>x\<close>. \<open>Variable.__init__\<close> builds the tensor of its
  \<open>grounding\<close> from a Python sequence with \<open>torch.tensor\<close> (and \<open>view\<close>): a new
  tensor object, on which nothing sets \<open>active_doms\<close>; the label is stored on the
  Variable, in \<open>free_variables\<close>. For every Variable so built, whatever else the
  store holds, the call on its grounding twice raises \<open>AttributeError\<close>, with either
  value of \<open>flatten_dim0\<close>, and leaves the store as it was.
\<close>

theorem C4_variable_grounding_attribute_error:
  assumes "Variable_init name dmn (Sequence s) = Inr x"
    and "alloc (grounding x) H = (H', g)"
  shows "active_doms (H' ! g) = None \<and>
    cross_grounding_values set_order [g, g] flatten_dim0 H' = (H', Inl AttributeError)"
proof -
  from assms(2) have n: "active_doms (H' ! g) = None" by (rule alloc_no_attribute)
  from n cross_grounding_values_no_attribute [OF n] show ?thesis by simp
qed

theorem C4_variable_grounding_attribute_error_witness:
  "Variable_init ''x'' \<lparr>shape = PyTuple [PyInt 2], domain_name = ''d''\<rparr>
       (Sequence (Seq [Seq [Num 1, Num 2], Seq [Num 3, Num 4], Seq [Num 5, Num (6 :: int)]]))
     = Inr \<lparr>grounding = \<lparr>tshape = [3, 2], elems = [1, 2, 3, 4, 5, 6]\<rparr>,
            domain = \<lparr>shape = PyTuple [PyInt 2], domain_name = ''d''\<rparr>,
            variable_name = ''x'', free_variables = [''x'']\<rparr> \<and>
   alloc \<lparr>tshape = [3, 2], elems = [1, 2, 3, 4, 5, 6 :: int]\<rparr> []
     = ([\<lparr>val = \<lparr>tshape = [3, 2], elems = [1, 2, 3, 4, 5, 6]\<rparr>, active_doms = None\<rparr>], 0) \<and>
   cross_grounding_values first_seen_order [0, 0] False
       [\<lparr>val = \<lparr>tshape = [3, 2], elems = [1, 2, 3, 4, 5, 6 :: int]\<rparr>, active_doms = None\<rparr>]
     = ([\<lparr>val = \<lparr>tshape = [3, 2], elems = [1, 2, 3, 4, 5, 6]\<rparr>, active_doms = None\<rparr>],
        Inl AttributeError)"
proof -
  let ?x = "\<lparr>grounding = \<lparr>tshape = [3, 2], elems = [1, 2, 3, 4, 5, 6 :: int]\<rparr>,
            domain = \<lparr>shape = PyTuple [PyInt 2], domain_name = ''d''\<rparr>,
            variable_name = ''x'', free_variables = [''x'']\<rparr>"
  let ?o = "\<lparr>val = \<lparr>tshape = [3, 2], elems = [1, 2, 3, 4, 5, 6 :: int]\<rparr>, active_doms = None\<rparr>"
  have v: "Variable_init ''x'' \<lparr>shape = PyTuple [PyInt 2], domain_name = ''d''\<rparr>
       (Sequence (Seq [Seq [Num 1, Num 2], Seq [Num 3, Num 4], Seq [Num 5, Num (6 :: int)]]))
     = Inr ?x"
    by (simp add: Variable_init_def torch_index0_def)
  have a: "alloc (grounding ?x) [] = ([?o], 0)" by (simp add: alloc_def)
  from C4_variable_grounding_attribute_error [OF v a, of first_seen_order False] v a
  show ?thesis by simp
qed

text \<open>
  The label is missing, not the crossing: on a tensor on which \<open>active_doms\<close> has been
  set to \<open>[x]\<close> and whose axis 0 has size \<open>n\<close>, passed twice, the engine returns two
  tensors with the value and the shape \<open>(n, \<dots>)\<close> of the input, the domains \<open>[x]\<close>
  and the counts \<open>[n]\<close>.
\<close>

lemma get_dim0_single:
  assumes "active_doms (H ! g) = Some [x]" and "tshape (val (H ! g)) = n # D"
  shows "get_dim0_of_dom H g x = Inr n"
  by (simp add: get_dim0_of_dom_def get_active_doms_def list_index_def torch_size_def assms)

lemma labelled_tensor_twice:
  assumes "set_order_ok set_order"
    and "g < length H"
    and "active_doms (H ! g) = Some [x]"
    and "tshape (val (H ! g)) = n # D"
    and "length (elems (val (H ! g))) = prod_list (n # D)"
  shows "cross_grounding_values set_order [g, g] False H
     = (H @ [\<lparr>val = val (H ! g), active_doms = Some [x]\<rparr>,
             \<lparr>val = val (H ! g), active_doms = Some [x]\<rparr>],
        Inr ([length H, Suc (length H)], [x], [n]))"
proof -
  let ?o = "\<lparr>val = val (H ! g), active_doms = Some [x]\<rparr>"
  have ga: "get_active_doms H g = Inr [x]" by (simp add: get_active_doms_def assms(3))
  have scan: "scan_groundings H [g, g] [] = Inr [(x, n)]"
    by (simp add: ga get_dim0_single [OF assms(3,4)])
  have wf: "length (elems (val (H ! g))) = prod_list (tshape (val (H ! g)))"
    using assms(4,5) by simp
  have rk: "length [x] \<le> length (tshape (val (H ! g)))" using assms(4) by simp
  have c1: "cross_grounding set_order [(x, n)] [x] False g H = (H @ [?o], Inr (length H))"
    using assms(3) _ rk wf assms(1) by (rule cross_grounding_same) simp
  have g': "(H @ [?o]) ! g = H ! g" using assms(2) by (simp add: nth_append)
  have c2: "cross_grounding set_order [(x, n)] [x] False g (H @ [?o])
      = ((H @ [?o]) @ [?o], Inr (length (H @ [?o])))"
    using cross_grounding_same [of "H @ [?o]" g "[x]" set_order "[(x, n)]"] assms(1,3) rk wf
    unfolding g' by simp
  show ?thesis
    unfolding cross_grounding_values_def scan
    by (simp add: c1 c2 Let_def)
qed


lemma labelled_tensor_twice_example:
  "set_order_ok first_seen_order \<and>
   cross_grounding_values first_seen_order [0, 0] False
       [\<lparr>val = \<lparr>tshape = [3, 2], elems = [1, 2, 3, 4, 5, 6 :: int]\<rparr>, active_doms = Some [''x'']\<rparr>]
     = ([\<lparr>val = \<lparr>tshape = [3, 2], elems = [1, 2, 3, 4, 5, 6]\<rparr>, active_doms = Some [''x'']\<rparr>,
         \<lparr>val = \<lparr>tshape = [3, 2], elems = [1, 2, 3, 4, 5, 6]\<rparr>, active_doms = Some [''x'']\<rparr>,
         \<lparr>val = \<lparr>tshape = [3, 2], elems = [1, 2, 3, 4, 5, 6]\<rparr>, active_doms = Some [''x'']\<rparr>],
        Inr ([1, 2], [''x''], [3]))"
proof -
  have ok: "set_order_ok first_seen_order"
    by (auto simp: set_order_ok_def first_seen_order_def)
  from labelled_tensor_twice [OF ok, of 0
      "[\<lparr>val = \<lparr>tshape = [3, 2], elems = [1, 2, 3, 4, 5, 6 :: int]\<rparr>, active_doms = Some [''x'']\<rparr>]"
      "''x''" 3 "[2]"] ok
  show ?thesis by simp
qed




lemma tiled_rows:
  assumes "length E = prod_list C"
  shows "list_all (\<lambda>i. torch_index0 \<lparr>tshape = n # C, elems = concat (replicate n E)\<rparr> i
                      = Inr \<lparr>tshape = C, elems = E\<rparr>) [0..<n]"
  using row_of_replicate [of _ n E] by (simp add: list_all_iff torch_index0_def assms [symmetric])

text \<open>
  Claim C5 says that crossing a Constant with a Variable of \<open>n\<close> individuals tiles the
  constant's value \<open>n\<close> times. \<open>Constant.__init__\<close> builds the tensor of its
  \<open>grounding\<close> with \<open>torch.tensor\<close>, a new tensor object, and sets no
  \<open>active_doms\<close> on it (it stores the empty list in \<open>free_variables\<close> of the
  Constant); neither does \<open>Variable.__init__\<close>. For every Constant and every Variable
  built by the constructors, the call on the two groundings, in either order and with
  either value of \<open>flatten_dim0\<close>, raises \<open>AttributeError\<close> and leaves the store as
  it was.
\<close>

theorem C5_constant_variable_attribute_error:
  assumes "Constant_init is_float cname cdmn v trainable = Inr c"
    and "Variable_init name dmn (Sequence s) = Inr x"
    and "alloc (constant_grounding c) H = (H1, gc)"
    and "alloc (grounding x) H1 = (H2, gx)"
  shows "cross_grounding_values set_order [gc, gx] flatten_dim0 H2 = (H2, Inl AttributeError) \<and>
    cross_grounding_values set_order [gx, gc] flatten_dim0 H2 = (H2, Inl AttributeError)"
proof -
  from assms(3) have c1: "active_doms (H1 ! gc) = None" by (rule alloc_no_attribute)
  from assms(3) have "gc < length H1" by (auto simp: alloc_def)
  with assms(4) have "H2 ! gc = H1 ! gc" by (rule alloc_keeps)
  with c1 have c: "active_doms (H2 ! gc) = None" by simp
  from assms(4) have x: "active_doms (H2 ! gx) = None" by (rule alloc_no_attribute)
  from cross_grounding_values_no_attribute [OF c] cross_grounding_values_no_attribute [OF x]
  show ?thesis by simp
qed

theorem C5_constant_variable_attribute_error_witness:
  "Constant_init (\<lambda>i. False) ''c'' \<lparr>shape = PyTuple [PyInt 2], domain_name = ''d''\<rparr>
       (Sequence (Seq [Num 7, Num (8 :: int)])) False
     = Inr \<lparr>constant_name = ''c'', constant_grounding = \<lparr>tshape = [2], elems = [7, 8]\<rparr>,
            constant_domain = \<lparr>shape = PyTuple [PyInt 2], domain_name = ''d''\<rparr>,
            constant_free_variables = []\<rparr> \<and>
   Variable_init ''x'' \<lparr>shape = PyTuple [PyInt 2], domain_name = ''d''\<rparr>
       (Sequence (Seq [Seq [Num 1, Num 2], Seq [Num 3, Num 4], Seq [Num 5, Num (6 :: int)]]))
     = Inr \<lparr>grounding = \<lparr>tshape = [3, 2], elems = [1, 2, 3, 4, 5, 6]\<rparr>,
            domain = \<lparr>shape = PyTuple [PyInt 2], domain_name = ''d''\<rparr>,
            variable_name = ''x'', free_variables = [''x'']\<rparr> \<and>
   cross_grounding_values first_seen_order [0, 1] False
       [\<lparr>val = \<lparr>tshape = [2], elems = [7, 8 :: int]\<rparr>, active_doms = None\<rparr>,
        \<lparr>val = \<lparr>tshape = [3, 2], elems = [1, 2, 3, 4, 5, 6]\<rparr>, active_doms = None\<rparr>]
     = ([\<lparr>val = \<lparr>tshape = [2], elems = [7, 8]\<rparr>, active_doms = None\<rparr>,
         \<lparr>val = \<lparr>tshape = [3, 2], elems = [1, 2, 3, 4, 5, 6]\<rparr>, active_doms = None\<rparr>],
        Inl AttributeError) \<and>
   cross_grounding_values first_seen_order [1, 0] False
       [\<lparr>val = \<lparr>tshape = [2], elems = [7, 8 :: int]\<rparr>, active_doms = None\<rparr>,
        \<lparr>val = \<lparr>tshape = [3, 2], elems = [1, 2, 3, 4, 5, 6]\<rparr>, active_doms = None\<rparr>]
     = ([\<lparr>val = \<lparr>tshape = [2], elems = [7, 8]\<rparr>, active_doms = None\<rparr>,
         \<lparr>val = \<lparr>tshape = [3, 2], elems = [1, 2, 3, 4, 5, 6]\<rparr>, active_doms = None\<rparr>],
        Inl AttributeError)"
proof -
  let ?d = "\<lparr>shape = PyTuple [PyInt 2], domain_name = ''d''\<rparr>"
  let ?c = "\<lparr>constant_name = ''c'', constant_grounding = \<lparr>tshape = [2], elems = [7, 8 :: int]\<rparr>,
            constant_domain = ?d, constant_free_variables = []\<rparr>"
  let ?x = "\<lparr>grounding = \<lparr>tshape = [3, 2], elems = [1, 2, 3, 4, 5, 6 :: int]\<rparr>,
            domain = ?d, variable_name = ''x'', free_variables = [''x'']\<rparr>"
  let ?oc = "\<lparr>val = \<lparr>tshape = [2], elems = [7, 8 :: int]\<rparr>, active_doms = None\<rparr>"
  let ?ox = "\<lparr>val = \<lparr>tshape = [3, 2], elems = [1, 2, 3, 4, 5, 6 :: int]\<rparr>, active_doms = None\<rparr>"
  have c: "Constant_init (\<lambda>i. False) ''c'' ?d (Sequence (Seq [Num 7, Num (8 :: int)])) False
      = Inr ?c"
    by (simp add: Constant_init_def)
  have v: "Variable_init ''x'' ?d
       (Sequence (Seq [Seq [Num 1, Num 2], Seq [Num 3, Num 4], Seq [Num 5, Num (6 :: int)]]))
     = Inr ?x"
    by (simp add: Variable_init_def torch_index0_def)
  have a1: "alloc (constant_grounding ?c) [] = ([?oc], 0)" by (simp add: alloc_def)
  have a2: "alloc (grounding ?x) [?oc] = ([?oc, ?ox], 1)" by (simp add: alloc_def)
  from C5_constant_variable_attribute_error [OF c v a1 a2, of first_seen_order False] c v
  show ?thesis by simp
qed

text \<open>
  Here too the label is what is missing: on a tensor on which \<open>active_doms\<close> has been
  set to the empty list, crossed with a tensor labelled \<open>[x]\<close> whose axis 0 has size
  \<open>n\<close>, in either order, the engine returns for the first a tensor of shape
  \<open>(n, *constant_shape)\<close> each of whose \<open>n\<close> rows is its value.
\<close>

lemma constant_tensor_tiled:
  assumes "set_order_ok set_order"
    and "c < length H" and "v < length H"
    and "active_doms (H ! c) = Some []"
    and "length (elems (val (H ! c))) = prod_list (tshape (val (H ! c)))"
    and "active_doms (H ! v) = Some [x]"
    and "tshape (val (H ! v)) = n # D"
    and "length (elems (val (H ! v))) = prod_list (n # D)"
  shows "(\<exists>H' rc rv.
            cross_grounding_values set_order [c, v] False H = (H', Inr ([rc, rv], [x], [n])) \<and>
            tshape (val (H' ! rc)) = n # tshape (val (H ! c)) \<and>
            list_all (\<lambda>i. torch_index0 (val (H' ! rc)) i = Inr (val (H ! c))) [0..<n]) \<and>
         (\<exists>H' rv rc.
            cross_grounding_values set_order [v, c] False H = (H', Inr ([rv, rc], [x], [n])) \<and>
            tshape (val (H' ! rc)) = n # tshape (val (H ! c)) \<and>
            list_all (\<lambda>i. torch_index0 (val (H' ! rc)) i = Inr (val (H ! c))) [0..<n])"
proof -
  let ?C = "tshape (val (H ! c))" and ?E = "elems (val (H ! c))"
  let ?t = "\<lparr>tshape = n # ?C, elems = concat (replicate n ?E)\<rparr>"
  let ?o1 = "\<lparr>val = \<lparr>tshape = Suc 0 # ?C, elems = ?E\<rparr>, active_doms = None\<rparr>"
  let ?o2 = "\<lparr>val = ?t, active_doms = None\<rparr>"
  let ?o3 = "\<lparr>val = ?t, active_doms = Some [x]\<rparr>"
  let ?ov = "\<lparr>val = val (H ! v), active_doms = Some [x]\<rparr>"
  have gac: "get_active_doms H c = Inr []" by (simp add: get_active_doms_def assms(4))
  have gav: "get_active_doms H v = Inr [x]" by (simp add: get_active_doms_def assms(6))
  have dim: "get_dim0_of_dom H v x = Inr n" using assms(6,7) by (rule get_dim0_single)
  have scan1: "scan_groundings H [c, v] [] = Inr [(x, n)]" by (simp add: gac gav dim)
  have scan2: "scan_groundings H [v, c] [] = Inr [(x, n)]" by (simp add: gac gav dim)
  have wfv: "length (elems (val (H ! v))) = prod_list (tshape (val (H ! v)))"
    using assms(7,8) by simp
  have rk: "length [x] \<le> length (tshape (val (H ! v)))" using assms(7) by simp
  have valc: "\<lparr>tshape = ?C, elems = ?E\<rparr> = val (H ! c)" by simp
  have rows: "list_all (\<lambda>i. torch_index0 ?t i = Inr (val (H ! c))) [0..<n]"
    using tiled_rows [OF assms(5), of n] unfolding valc .
  \<comment> \<open>the constant first\<close>
  let ?H3 = "H @ [?o1, ?o2, ?o3]"
  have c1: "cross_grounding set_order [(x, n)] [x] False c H = (?H3, Inr (Suc (Suc (length H))))"
    using assms(4,5,1) by (rule cross_grounding_constant)
  have v3: "?H3 ! v = H ! v" using assms(3) by (simp add: nth_append)
  have c2: "cross_grounding set_order [(x, n)] [x] False v ?H3 = (?H3 @ [?ov], Inr (length ?H3))"
    using cross_grounding_same [of ?H3 v "[x]" set_order "[(x, n)]"] assms(1,6) rk wfv
    unfolding v3 by simp
  have r1: "cross_grounding_values set_order [c, v] False H
      = (?H3 @ [?ov], Inr ([Suc (Suc (length H)), length ?H3], [x], [n]))"
    unfolding cross_grounding_values_def scan1 by (simp add: c1 c2 Let_def)
  have l1: "(?H3 @ [?ov]) ! Suc (Suc (length H)) = ?o3" by (simp add: nth_append)
  have first: "\<exists>H' rc rv.
            cross_grounding_values set_order [c, v] False H = (H', Inr ([rc, rv], [x], [n])) \<and>
            tshape (val (H' ! rc)) = n # tshape (val (H ! c)) \<and>
            list_all (\<lambda>i. torch_index0 (val (H' ! rc)) i = Inr (val (H ! c))) [0..<n]"
    using r1 rows by (intro exI [of _ "?H3 @ [?ov]"] exI [of _ "Suc (Suc (length H))"]
        exI [of _ "length ?H3"]) (simp only: l1 tobj.simps tensor.simps simp_thms)
  \<comment> \<open>the variable first\<close>
  let ?H1 = "H @ [?ov]"
  let ?H4 = "?H1 @ [?o1, ?o2, ?o3]"
  have d1: "cross_grounding set_order [(x, n)] [x] False v H = (?H1, Inr (length H))"
    using assms(6) _ rk wfv assms(1) by (rule cross_grounding_same) simp
  have c1': "?H1 ! c = H ! c" using assms(2) by (simp add: nth_append)
  have d2: "cross_grounding set_order [(x, n)] [x] False c ?H1 = (?H4, Inr (Suc (Suc (length ?H1))))"
    using cross_grounding_constant [of ?H1 c set_order x n] assms(1,4,5)
    unfolding c1' by simp
  have r2: "cross_grounding_values set_order [v, c] False H
      = (?H4, Inr ([length H, Suc (Suc (length ?H1))], [x], [n]))"
    unfolding cross_grounding_values_def scan2 by (simp add: d1 d2 Let_def)
  have l2: "?H4 ! Suc (Suc (length ?H1)) = ?o3" by (simp add: nth_append)
  have second: "\<exists>H' rv rc.
            cross_grounding_values set_order [v, c] False H = (H', Inr ([rv, rc], [x], [n])) \<and>
            tshape (val (H' ! rc)) = n # tshape (val (H ! c)) \<and>
            list_all (\<lambda>i. torch_index0 (val (H' ! rc)) i = Inr (val (H ! c))) [0..<n]"
    using r2 rows by (intro exI [of _ ?H4] exI [of _ "length H"]
        exI [of _ "Suc (Suc (length ?H1))"]) (simp only: l2 tobj.simps tensor.simps simp_thms)
  from first second show ?thesis ..
qed


lemma first_seen_order_ok: "set_order_ok first_seen_order"
  by (auto simp: set_order_ok_def first_seen_order_def)

lemma constant_tensor_tiled_example:
  "set_order_ok first_seen_order \<and>
   (\<exists>H' rc rv.
      cross_grounding_values first_seen_order [0, 1] False
          [\<lparr>val = \<lparr>tshape = [2], elems = [7, 8 :: int]\<rparr>, active_doms = Some []\<rparr>,
           \<lparr>val = \<lparr>tshape = [3], elems = [1, 2, 3]\<rparr>, active_doms = Some [''x'']\<rparr>]
        = (H', Inr ([rc, rv], [''x''], [3])) \<and>
      tshape (val (H' ! rc)) = [3, 2] \<and>
      list_all (\<lambda>i. torch_index0 (val (H' ! rc)) i = Inr \<lparr>tshape = [2], elems = [7, 8]\<rparr>)
        [0..<3])"
  using constant_tensor_tiled [OF first_seen_order_ok, of 0
      "[\<lparr>val = \<lparr>tshape = [2], elems = [7, 8 :: int]\<rparr>, active_doms = Some []\<rparr>,
        \<lparr>val = \<lparr>tshape = [3], elems = [1, 2, 3]\<rparr>, active_doms = Some [''x'']\<rparr>]"
      1 "''x''" 3 "[]"] first_seen_order_ok
  by simp




section \<open>The engine on well-formed groundings\<close>

text \<open>
  The first loop never fails on well-formed groundings: it records every label once,
  with the count of the last grounding that carries it.
\<close>

lemma map_of_dict_set: "map_of (dict_set d k v) = (map_of d)(k \<mapsto> v)"
  by (induction d k v rule: dict_set.induct) auto

lemma keys_dict_set:
  "map fst (dict_set d k v) = (if k \<in> set (map fst d) then map fst d else map fst d @ [k])"
  by (induction d k v rule: dict_set.induct) auto

lemma wf_groundingD:
  assumes "wf_grounding g"
  shows "active_doms g = Some (doms_of g)" and "distinct (doms_of g)"
    and "length (doms_of g) \<le> length (tshape (val g))"
    and "length (elems (val g)) = prod_list (tshape (val g))"
  using assms by (auto simp: wf_grounding_def doms_of_def split: option.splits)

lemma get_dim0_of_dom_ok:
  assumes "wf_grounding (H ! g)" and "dm \<in> set (doms_of (H ! g))"
  shows "get_dim0_of_dom H g dm = Inr (count_of (H ! g) dm)"
proof -
  from assms(2) have "pos (doms_of (H ! g)) dm < length (doms_of (H ! g))" by (rule pos_less)
  with wf_groundingD(3) [OF assms(1)]
  have "pos (doms_of (H ! g)) dm < length (tshape (val (H ! g)))" by simp
  then show ?thesis
    using assms(2)
    by (simp add: get_dim0_of_dom_def get_active_doms_def wf_groundingD(1) [OF assms(1)]
        list_index_def torch_size_def count_of_def)
qed

lemma scan_doms_ok:
  assumes "wf_grounding (H ! g)"
  shows "set ds \<subseteq> set (doms_of (H ! g)) \<Longrightarrow>
     \<exists>d'. scan_doms H g ds d = Inr d' \<and>
          set (map fst d') = set (map fst d) \<union> set ds \<and>
          (distinct (map fst d) \<longrightarrow> distinct (map fst d')) \<and>
          (\<forall>k. map_of d' k = (if k \<in> set ds then Some (count_of (H ! g) k) else map_of d k))"
proof (induction ds arbitrary: d)
  case Nil
  then show ?case by simp
next
  case (Cons dm rest)
  from Cons.prems have dm: "dm \<in> set (doms_of (H ! g))" and rest: "set rest \<subseteq> set (doms_of (H ! g))"
    by simp_all
  let ?d1 = "dict_set d dm (count_of (H ! g) dm)"
  from Cons.IH [OF rest, of ?d1] obtain d' where d':
    "scan_doms H g rest ?d1 = Inr d'"
    "set (map fst d') = set (map fst ?d1) \<union> set rest"
    "distinct (map fst ?d1) \<longrightarrow> distinct (map fst d')"
    "\<And>k. map_of d' k = (if k \<in> set rest then Some (count_of (H ! g) k) else map_of ?d1 k)"
    by blast
  have "scan_doms H g (dm # rest) d = Inr d'"
    by (simp add: get_dim0_of_dom_ok [OF assms dm] d'(1))
  moreover have "set (map fst d') = set (map fst d) \<union> set (dm # rest)"
    unfolding d'(2) keys_dict_set by auto
  moreover have "distinct (map fst d) \<longrightarrow> distinct (map fst d')"
    using d'(3) unfolding keys_dict_set by auto
  moreover have "map_of d' k = (if k \<in> set (dm # rest) then Some (count_of (H ! g) k) else map_of d k)"
    for k unfolding d'(4) map_of_dict_set by auto
  ultimately show ?case by blast
qed


lemma scan_groundings_ok:
  "wf_groundings H gs \<Longrightarrow>
     \<exists>d'. scan_groundings H gs d = Inr d' \<and>
          set (map fst d') = set (map fst d) \<union> (\<Union>g\<in>set gs. set (doms_of (H ! g))) \<and>
          (distinct (map fst d) \<longrightarrow> distinct (map fst d')) \<and>
          (\<forall>k. (\<forall>g\<in>set gs. k \<notin> set (doms_of (H ! g))) \<longrightarrow> map_of d' k = map_of d k) \<and>
          (\<forall>pre g post k.
              gs = pre @ g # post \<and> k \<in> set (doms_of (H ! g)) \<and>
              (\<forall>g'\<in>set post. k \<notin> set (doms_of (H ! g'))) \<longrightarrow>
              map_of d' k = Some (count_of (H ! g) k))"
proof (induction gs arbitrary: d)
  case Nil
  then show ?case by simp
next
  case (Cons g0 rest)
  from Cons.prems have wf0: "wf_grounding (H ! g0)" and wfr: "wf_groundings H rest"
    by (simp_all add: wf_groundings_def)
  from scan_doms_ok [OF wf0 subset_refl, of d] obtain d1 where
    "scan_doms H g0 (doms_of (H ! g0)) d = Inr d1 \<and>
     set (map fst d1) = set (map fst d) \<union> set (doms_of (H ! g0)) \<and>
     (distinct (map fst d) \<longrightarrow> distinct (map fst d1)) \<and>
     (\<forall>k. map_of d1 k = (if k \<in> set (doms_of (H ! g0)) then Some (count_of (H ! g0) k) else map_of d k))"
    ..
  then have d1: "scan_doms H g0 (doms_of (H ! g0)) d = Inr d1"
    "set (map fst d1) = set (map fst d) \<union> set (doms_of (H ! g0))"
    "distinct (map fst d) \<longrightarrow> distinct (map fst d1)"
    "\<And>k. map_of d1 k = (if k \<in> set (doms_of (H ! g0)) then Some (count_of (H ! g0) k) else map_of d k)"
    by simp_all
  from Cons.IH [OF wfr, of d1] obtain d' where
    "scan_groundings H rest d1 = Inr d' \<and>
     set (map fst d') = set (map fst d1) \<union> (\<Union>g\<in>set rest. set (doms_of (H ! g))) \<and>
     (distinct (map fst d1) \<longrightarrow> distinct (map fst d')) \<and>
     (\<forall>k. (\<forall>g\<in>set rest. k \<notin> set (doms_of (H ! g))) \<longrightarrow> map_of d' k = map_of d1 k) \<and>
     (\<forall>pre g post k.
         rest = pre @ g # post \<and> k \<in> set (doms_of (H ! g)) \<and>
         (\<forall>g'\<in>set post. k \<notin> set (doms_of (H ! g'))) \<longrightarrow>
         map_of d' k = Some (count_of (H ! g) k))"
    ..
  then have d': "scan_groundings H rest d1 = Inr d'"
    "set (map fst d') = set (map fst d1) \<union> (\<Union>g\<in>set rest. set (doms_of (H ! g)))"
    "distinct (map fst d1) \<longrightarrow> distinct (map fst d')"
    "\<forall>k. (\<forall>g\<in>set rest. k \<notin> set (doms_of (H ! g))) \<longrightarrow> map_of d' k = map_of d1 k"
    "\<forall>pre g post k.
         rest = pre @ g # post \<and> k \<in> set (doms_of (H ! g)) \<and>
         (\<forall>g'\<in>set post. k \<notin> set (doms_of (H ! g'))) \<longrightarrow>
         map_of d' k = Some (count_of (H ! g) k)"
    by (rule conjunct1, rule conjunct2 [THEN conjunct1],
        rule conjunct2 [THEN conjunct2, THEN conjunct1],
        rule conjunct2 [THEN conjunct2, THEN conjunct2, THEN conjunct1],
        rule conjunct2 [THEN conjunct2, THEN conjunct2, THEN conjunct2])
  have run: "scan_groundings H (g0 # rest) d = Inr d'"
    by (simp add: get_active_doms_def wf_groundingD(1) [OF wf0] d1(1) d'(1))
  have keys: "set (map fst d') = set (map fst d) \<union> (\<Union>g\<in>set (g0 # rest). set (doms_of (H ! g)))"
    unfolding d'(2) d1(2) by auto
  have dist: "distinct (map fst d) \<longrightarrow> distinct (map fst d')"
    using d1(3) d'(3) by blast
  have same: "map_of d' k = map_of d k" if "\<forall>g\<in>set (g0 # rest). k \<notin> set (doms_of (H ! g))" for k
  proof -
    from that have "\<forall>g\<in>set rest. k \<notin> set (doms_of (H ! g))" "k \<notin> set (doms_of (H ! g0))"
      by simp_all
    with d'(4) d1(4) [of k] show ?thesis by simp
  qed
  have last: "map_of d' k = Some (count_of (H ! g) k)"
    if "g0 # rest = pre @ g # post" "k \<in> set (doms_of (H ! g))"
      "\<forall>g'\<in>set post. k \<notin> set (doms_of (H ! g'))" for pre g post k
  proof (cases pre)
    case Nil
    with that(1) have "g = g0" "post = rest" by simp_all
    with that(2,3) d'(4) d1(4) [of k] show ?thesis by simp
  next
    case (Cons p pre')
    with that(1) have "rest = pre' @ g # post" by simp
    with d'(5) that(2,3) show ?thesis by blast
  qed
  show ?case
  proof (intro exI [of _ d'] conjI)
    show "scan_groundings H (g0 # rest) d = Inr d'" by (rule run)
    show "set (map fst d') = set (map fst d) \<union> (\<Union>g\<in>set (g0 # rest). set (doms_of (H ! g)))"
      by (rule keys)
    show "distinct (map fst d) \<longrightarrow> distinct (map fst d')" by (rule dist)
    show "\<forall>k. (\<forall>g\<in>set (g0 # rest). k \<notin> set (doms_of (H ! g))) \<longrightarrow> map_of d' k = map_of d k"
      using same by blast
    show "\<forall>pre g post k.
              g0 # rest = pre @ g # post \<and> k \<in> set (doms_of (H ! g)) \<and>
              (\<forall>g'\<in>set post. k \<notin> set (doms_of (H ! g'))) \<longrightarrow>
              map_of d' k = Some (count_of (H ! g) k)"
      using last by blast
  qed
qed




text \<open>
  The second loop never fails on them either: every label to add is a key of the
  dictionary, and the axes moved to the front form a permutation.
\<close>

lemma dict_get_ok: "k \<in> set (map fst d) \<Longrightarrow> \<exists>n. dict_get d k = Inr n"
proof -
  assume "k \<in> set (map fst d)"
  then have "map_of d k \<noteq> None" by (simp add: map_of_eq_None_iff)
  then show ?thesis by (auto simp: dict_get_def)
qed

lemma torch_permute_ok:
  "length perm = length (tshape t) \<Longrightarrow> distinct perm \<Longrightarrow> list_all (\<lambda>p. p < length (tshape t)) perm
     \<Longrightarrow> \<exists>t'. torch_permute t perm = Inr t'"
  by (rule exI) (rule torch_permute_valid)

lemma pos_inj: "x \<in> set xs \<Longrightarrow> y \<in> set xs \<Longrightarrow> pos xs x = pos xs y \<Longrightarrow> x = y"
  by (metis nth_pos)

lemma canonical_perm_ok:
  assumes "distinct dig" and "distinct doms" and "set dig = set doms" and "length dig \<le> r"
  shows "length (map (pos dig) doms @ [length dig..<r]) = r"
    and "distinct (map (pos dig) doms @ [length dig..<r])"
    and "list_all (\<lambda>p. p < r) (map (pos dig) doms @ [length dig..<r])"
proof -
  have len: "length dig = length doms"
    using assms(1,2,3) by (metis distinct_card)
  then show "length (map (pos dig) doms @ [length dig..<r]) = r" using assms(4) by simp
  have lt: "pos dig x < length dig" if "x \<in> set doms" for x
    using that assms(3) by (simp add: pos_less)
  have "inj_on (pos dig) (set doms)"
    unfolding assms(3) [symmetric] by (rule inj_onI) (rule pos_inj)
  with assms(2) have "distinct (map (pos dig) doms)" by (simp add: distinct_map)
  with lt show "distinct (map (pos dig) doms @ [length dig..<r])" by fastforce
  from lt assms(4) show "list_all (\<lambda>p. p < r) (map (pos dig) doms @ [length dig..<r])"
    by (fastforce simp: list_all_iff)
qed

lemma add_new_doms_ok:
  "g < length H \<Longrightarrow> length dig \<le> length (tshape (val (H ! g))) \<Longrightarrow>
   set nds \<subseteq> set (map fst d) \<Longrightarrow>
     \<exists>H' g'. add_new_doms d nds g dig H = (H', Inr (g', dig @ nds)) \<and> g' < length H' \<and>
        length (tshape (val (H' ! g'))) = length (tshape (val (H ! g))) + length nds"
proof (induction nds arbitrary: g dig H)
  case Nil
  then show ?case by simp
next
  case (Cons nd rest)
  let ?t = "val (H ! g)"
  let ?t1 = "\<lparr>tshape = take (length dig) (tshape ?t) @ 1 # drop (length dig) (tshape ?t),
              elems = elems ?t\<rparr>"
  let ?H1 = "H @ [\<lparr>val = ?t1, active_doms = None\<rparr>]"
  have op1: "torch_op (\<lambda>t. torch_unsqueeze t (length dig)) g H = (?H1, Inr (length H))"
    by (rule torch_op_ok) (simp add: torch_unsqueeze_def Cons.prems(2))
  from Cons.prems(3) have "nd \<in> set (map fst d)" by simp
  from dict_get_ok [OF this] obtain n where n: "dict_get d nd = Inr n" ..
  have r1: "length (tshape ?t1) = Suc (length (tshape ?t))"
    using Cons.prems(2) by simp
  let ?t2 = "\<lparr>tshape = (tshape ?t1)[length dig := n * (tshape ?t1 ! length dig)],
              elems = concat (map (\<lambda>b. concat (replicate n b))
                 (chunks (prod_list (drop (Suc (length dig)) (tshape ?t1))) (elems ?t1)))\<rparr>"
  let ?H2 = "?H1 @ [\<lparr>val = ?t2, active_doms = None\<rparr>]"
  have v1: "val (?H1 ! length H) = ?t1" by simp
  have lt1: "length dig < length (tshape ?t1)"
    using Cons.prems(2) by simp
  have rep: "torch_repeat_interleave ?t1 n (length dig) = Inr ?t2"
    unfolding torch_repeat_interleave_def by (simp only: lt1 if_True)
  have op2: "torch_op (\<lambda>t. torch_repeat_interleave t n (length dig)) (length H) ?H1
      = (?H2, Inr (length ?H1))"
    by (rule torch_op_ok) (simp only: v1 rep)
  have step: "add_new_doms d (nd # rest) g dig H
      = add_new_doms d rest (length ?H1) (dig @ [nd]) ?H2"
    by (simp only: add_new_doms.simps Let_def op1 op2 n prod.case sum.case)
  have g2: "length ?H1 < length ?H2" by simp
  have v2: "val (?H2 ! length ?H1) = ?t2" by (simp only: nth_append_length tobj.simps)
  have r2: "length (tshape ?t2) = Suc (length (tshape ?t))"
    using Cons.prems(2) by simp
  have l2: "length (dig @ [nd]) \<le> length (tshape (val (?H2 ! length ?H1)))"
    unfolding v2 r2 using Cons.prems(2) by simp
  from Cons.prems(3) have rest: "set rest \<subseteq> set (map fst d)" by simp
  from Cons.IH [OF g2 l2 rest] obtain H' g' where
    "add_new_doms d rest (length ?H1) (dig @ [nd]) ?H2 = (H', Inr (g', (dig @ [nd]) @ rest)) \<and>
     g' < length H' \<and>
     length (tshape (val (H' ! g'))) = length (tshape (val (?H2 ! length ?H1))) + length rest"
    by blast
  then show ?case unfolding step v2 r2 by auto
qed



lemma cross_grounding_ok:
  assumes "g < length H" and "wf_grounding (H ! g)" and "set_order_ok so"
    and "distinct doms" and "set (doms_of (H ! g)) \<subseteq> set doms" and "map fst d = doms"
  shows "\<exists>H' r. cross_grounding so d doms False g H = (H', Inr r)"
proof -
  let ?ds = "doms_of (H ! g)"
  let ?nds = "so doms ?ds"
  let ?dig = "?ds @ ?nds"
  have ga: "get_active_doms H g = Inr ?ds"
    by (simp add: get_active_doms_def wf_groundingD(1) [OF assms(2)])
  have nds: "distinct ?nds" "set ?nds = set doms - set ?ds"
    using assms(3) by (rule set_order_okD)+
  have sub: "set ?nds \<subseteq> set (map fst d)" unfolding assms(6) nds(2) by blast
  from add_new_doms_ok [OF assms(1) wf_groundingD(3) [OF assms(2)] sub]
  obtain H1 g1 where add: "add_new_doms d ?nds g ?ds H = (H1, Inr (g1, ?dig))"
    and g1: "g1 < length H1"
    and r1: "length (tshape (val (H1 ! g1))) = length (tshape (val (H ! g))) + length ?nds"
    by blast
  have dd: "distinct ?dig" using wf_groundingD(2) [OF assms(2)] nds by auto
  have sd: "set ?dig = set doms" using assms(5) nds(2) by auto
  have ie: "index_each ?dig doms = Inr (map (pos ?dig) doms)"
    by (simp only: index_each_def sd list_all_iff) simp
  have le: "length ?dig \<le> length (tshape (val (H1 ! g1)))"
    unfolding r1 using wf_groundingD(3) [OF assms(2)] by simp
  let ?perm = "map (pos ?dig) doms @ [length ?dig..<length (tshape (val (H1 ! g1)))]"
  from torch_permute_ok [OF canonical_perm_ok [OF dd assms(4) sd le]]
  obtain t' where "torch_permute (val (H1 ! g1)) ?perm = Inr t'" ..
  then have op: "torch_op (\<lambda>t. torch_permute t ?perm) g1 H1
      = (H1 @ [\<lparr>val = t', active_doms = None\<rparr>], Inr (length H1))"
    by (rule torch_op_ok)
  have "cross_grounding so d doms False g H
      = (set_active_doms (length H1) doms (H1 @ [\<lparr>val = t', active_doms = None\<rparr>]),
         Inr (length H1))"
    by (simp only: cross_grounding_def ga add ie op Let_def sum.case prod.case if_False)
  then show ?thesis by blast
qed

lemma cross_loop_ok:
  assumes "set_order_ok so" and "distinct doms" and "map fst d = doms"
  shows "list_all (\<lambda>g. g < length H \<and> wf_grounding (H ! g) \<and> set (doms_of (H ! g)) \<subseteq> set doms) gs
     \<Longrightarrow> \<exists>H' outs. cross_loop so d doms False gs acc H = (H', Inr outs)"
proof (induction gs arbitrary: acc H)
  case Nil
  then show ?case by simp
next
  case (Cons g rest)
  from Cons.prems have g: "g < length H" "wf_grounding (H ! g)" "set (doms_of (H ! g)) \<subseteq> set doms"
    by simp_all
  from cross_grounding_ok [OF g(1,2) assms(1,2) g(3) assms(3)]
  obtain H1 r where c: "cross_grounding so d doms False g H = (H1, Inr r)" by blast
  from cross_grounding_frame [OF c] have p: "prefix H H1" by blast
  have "list_all (\<lambda>g. g < length H1 \<and> wf_grounding (H1 ! g) \<and> set (doms_of (H1 ! g)) \<subseteq> set doms) rest"
    unfolding list_all_iff
  proof
    fix g' assume "g' \<in> set rest"
    with Cons.prems have g': "g' < length H" "wf_grounding (H ! g')" "set (doms_of (H ! g')) \<subseteq> set doms"
      by (simp_all add: list_all_iff)
    from prefix_nth [OF p g'(1)] have "H1 ! g' = H ! g'" .
    moreover from p g'(1) have "g' < length H1" using prefix_length_le by fastforce
    ultimately show "g' < length H1 \<and> wf_grounding (H1 ! g') \<and> set (doms_of (H1 ! g')) \<subseteq> set doms"
      using g'(2,3) by simp
  qed
  from Cons.IH [OF this, of "acc @ [r]"] obtain H' outs where
    "cross_loop so d doms False rest (acc @ [r]) H1 = (H', Inr outs)" by blast
  with c show ?case by simp
qed




text \<open>
  Claim C2 says that \<open>cross_grounding_values\<close> fails when one label has two different
  counts across the inputs. It returns: for two groundings that bind \<open>x\<close> to 2 and to 3
  individuals it returns both tensors, with their own sizes, and the count 3.
\<close>

theorem C2_conflicting_counts_accepted:
  "count_of (conflicting ! 0) ''x'' = 2 \<and> count_of (conflicting ! 1) ''x'' = 3 \<and>
   snd (cross_grounding_values first_seen_order [0, 1] False conflicting)
     = Inr ([2, 3], [''x''], [3]) \<and>
   map (\<lambda>r. tshape (val (fst (cross_grounding_values first_seen_order [0, 1] False conflicting) ! r)))
       [2, 3] = [[2], [3]]"
  by code_simp

text \<open>The labels are recorded in the order in which they are first seen.\<close>

lemma set_first_seen: "set (first_seen xs) = set xs"
  by (induction xs) auto

lemma distinct_first_seen: "distinct (first_seen xs)"
  by (induction xs) (auto simp: set_first_seen)

lemma fold_add_key:
  "fold (\<lambda>k ks. if k \<in> set ks then ks else ks @ [k]) xs ys
     = ys @ filter (\<lambda>x. x \<notin> set ys) (first_seen xs)"
proof (induction xs arbitrary: ys)
  case Nil
  then show ?case by simp
next
  case (Cons x xs)
  show ?case
  proof (cases "x \<in> set ys")
    case True
    then have "filter (\<lambda>z. z \<notin> set ys) (filter (\<lambda>y. y \<noteq> x) (first_seen xs))
        = filter (\<lambda>z. z \<notin> set ys) (first_seen xs)"
      by (auto intro: filter_cong)
    with True Cons.IH [of ys] show ?thesis by simp
  next
    case False
    have "filter (\<lambda>z. z \<notin> set (ys @ [x])) (first_seen xs)
        = filter (\<lambda>z. z \<notin> set ys) (filter (\<lambda>y. y \<noteq> x) (first_seen xs))"
      by (auto intro: filter_cong)
    with False Cons.IH [of "ys @ [x]"] show ?thesis by simp
  qed
qed

lemma scan_doms_keys:
  "scan_doms H g ds d = Inr d' \<Longrightarrow>
     map fst d' = fold (\<lambda>k ks. if k \<in> set ks then ks else ks @ [k]) ds (map fst d)"
proof (induction ds arbitrary: d)
  case Nil
  then show ?case by simp
next
  case (Cons dm rest)
  from Cons.prems obtain n where n: "get_dim0_of_dom H g dm = Inr n"
    and rec: "scan_doms H g rest (dict_set d dm n) = Inr d'"
    by (auto split: sum.splits)
  from Cons.IH [OF rec] show ?case by (simp add: keys_dict_set)
qed

lemma scan_groundings_keys:
  "scan_groundings H gs d = Inr d' \<Longrightarrow>
     map fst d' = fold (\<lambda>k ks. if k \<in> set ks then ks else ks @ [k])
                    (concat (map (\<lambda>g. doms_of (H ! g)) gs)) (map fst d)"
proof (induction gs arbitrary: d)
  case Nil
  then show ?case by simp
next
  case (Cons g rest)
  from Cons.prems obtain ds d1 where ds: "get_active_doms H g = Inr ds"
    and d1: "scan_doms H g ds d = Inr d1"
    and rec: "scan_groundings H rest d1 = Inr d'"
    by (auto split: sum.splits)
  from ds have "doms_of (H ! g) = ds"
    by (auto simp: get_active_doms_def doms_of_def split: option.splits)
  with Cons.IH [OF rec] scan_doms_keys [OF d1] show ?case by simp
qed

lemma scan_groundings_first_seen:
  "scan_groundings H gs [] = Inr d \<Longrightarrow>
     map fst d = first_seen (concat (map (\<lambda>g. doms_of (H ! g)) gs))"
  using scan_groundings_keys [of H gs "[]" d] by (simp add: fold_add_key)

lemma scan_groundings_empty:
  assumes "wf_groundings H gs"
  shows "\<exists>d. scan_groundings H gs [] = Inr d \<and>
     set (map fst d) = (\<Union>g\<in>set gs. set (doms_of (H ! g))) \<and>
     distinct (map fst d) \<and>
     (\<forall>pre g post k.
         gs = pre @ g # post \<and> k \<in> set (doms_of (H ! g)) \<and>
         (\<forall>g'\<in>set post. k \<notin> set (doms_of (H ! g'))) \<longrightarrow>
         map_of d k = Some (count_of (H ! g) k))"
proof -
  from scan_groundings_ok [OF assms, of "[] :: (string \<times> nat) list"] obtain d where X:
    "scan_groundings H gs [] = Inr d \<and>
     set (map fst d) = set (map fst ([] :: (string \<times> nat) list))
       \<union> (\<Union>g\<in>set gs. set (doms_of (H ! g))) \<and>
     (distinct (map fst ([] :: (string \<times> nat) list)) \<longrightarrow> distinct (map fst d)) \<and>
     (\<forall>k. (\<forall>g\<in>set gs. k \<notin> set (doms_of (H ! g)))
          \<longrightarrow> map_of d k = map_of ([] :: (string \<times> nat) list) k) \<and>
     (\<forall>pre g post k.
         gs = pre @ g # post \<and> k \<in> set (doms_of (H ! g)) \<and>
         (\<forall>g'\<in>set post. k \<notin> set (doms_of (H ! g'))) \<longrightarrow>
         map_of d k = Some (count_of (H ! g) k))"
    ..
  show ?thesis
  proof (intro exI [of _ d] conjI)
    from X show "scan_groundings H gs [] = Inr d" by (rule conjunct1)
    from X have "set (map fst d) = set (map fst ([] :: (string \<times> nat) list))
       \<union> (\<Union>g\<in>set gs. set (doms_of (H ! g)))" by (rule conjunct2 [THEN conjunct1])
    then show "set (map fst d) = (\<Union>g\<in>set gs. set (doms_of (H ! g)))"
      by (simp only: list.map list.set Un_empty_left)
    from X have "distinct (map fst ([] :: (string \<times> nat) list)) \<longrightarrow> distinct (map fst d)"
      by (rule conjunct2 [THEN conjunct2, THEN conjunct1])
    then show "distinct (map fst d)" by (simp only: list.map distinct.simps simp_thms)
    from X show "\<forall>pre g post k.
         gs = pre @ g # post \<and> k \<in> set (doms_of (H ! g)) \<and>
         (\<forall>g'\<in>set post. k \<notin> set (doms_of (H ! g'))) \<longrightarrow>
         map_of d k = Some (count_of (H ! g) k)"
      by (rule conjunct2 [THEN conjunct2, THEN conjunct2, THEN conjunct2])
  qed
qed

text \<open>
  Claim C2, amended: \<open>cross_grounding_values\<close> (with \<open>flatten_dim0=False\<close>) has no
  conflict check and raises no error on well-formed groundings, whether or not a label
  has different counts across them. It returns one tensor per input, the labels in the
  order in which they are first seen, each once, and for every label the count of the
  last input that carries it.
\<close>

theorem C2_no_conflict_check:
  assumes "set_order_ok set_order" and "wf_groundings H gs"
  shows "\<exists>H' outs doms dims0.
           cross_grounding_values set_order gs False H = (H', Inr (outs, doms, dims0)) \<and>
           length outs = length gs \<and>
           doms = first_seen (concat (map (\<lambda>g. doms_of (H ! g)) gs)) \<and>
           length dims0 = length doms \<and>
           set doms = (\<Union>g\<in>set gs. set (doms_of (H ! g))) \<and>
           (\<forall>pre g post k.
               gs = pre @ g # post \<and> k \<in> set (doms_of (H ! g)) \<and>
               (\<forall>g'\<in>set post. k \<notin> set (doms_of (H ! g'))) \<longrightarrow>
               map_of (zip doms dims0) k = Some (count_of (H ! g) k))"
proof -
  from scan_groundings_empty [OF assms(2)] obtain d where X:
    "scan_groundings H gs [] = Inr d \<and>
     set (map fst d) = (\<Union>g\<in>set gs. set (doms_of (H ! g))) \<and>
     distinct (map fst d) \<and>
     (\<forall>pre g post k.
         gs = pre @ g # post \<and> k \<in> set (doms_of (H ! g)) \<and>
         (\<forall>g'\<in>set post. k \<notin> set (doms_of (H ! g'))) \<longrightarrow>
         map_of d k = Some (count_of (H ! g) k))"
    ..
  from X have d: "scan_groundings H gs [] = Inr d" by (rule conjunct1)
  from X have keys: "set (map fst d) = (\<Union>g\<in>set gs. set (doms_of (H ! g)))"
    by (rule conjunct2 [THEN conjunct1])
  from X have dist: "distinct (map fst d)" by (rule conjunct2 [THEN conjunct2, THEN conjunct1])
  from X have last: "\<forall>pre g post k.
         gs = pre @ g # post \<and> k \<in> set (doms_of (H ! g)) \<and>
         (\<forall>g'\<in>set post. k \<notin> set (doms_of (H ! g'))) \<longrightarrow>
         map_of d k = Some (count_of (H ! g) k)"
    by (rule conjunct2 [THEN conjunct2, THEN conjunct2])
  have "list_all (\<lambda>g. g < length H \<and> wf_grounding (H ! g) \<and>
                       set (doms_of (H ! g)) \<subseteq> set (map fst d)) gs"
    using assms(2) unfolding keys wf_groundings_def list_all_iff by blast
  from cross_loop_ok [OF assms(1) dist refl this, of "[]"] obtain H' outs where
    loop: "cross_loop set_order d (map fst d) False gs [] H = (H', Inr outs)" by blast
  have run: "cross_grounding_values set_order gs False H = (H', Inr (outs, map fst d, map snd d))"
    by (simp only: cross_grounding_values_def d loop Let_def sum.case prod.case)
  from cross_grounding_values_frame(2) [OF run refl] have len: "length outs = length gs" by simp
  have z: "zip (map fst d) (map snd d) = d" by (rule zip_map_fst_snd)
  from d have fs: "map fst d = first_seen (concat (map (\<lambda>g. doms_of (H ! g)) gs))"
    by (rule scan_groundings_first_seen)
  have lm: "length (map snd d) = length (map fst d)" by simp
  have lz: "\<forall>pre g post k.
               gs = pre @ g # post \<and> k \<in> set (doms_of (H ! g)) \<and>
               (\<forall>g'\<in>set post. k \<notin> set (doms_of (H ! g'))) \<longrightarrow>
               map_of (zip (map fst d) (map snd d)) k = Some (count_of (H ! g) k)"
    unfolding z by (rule last)
  show ?thesis
    by (rule exI [of _ H'], rule exI [of _ outs], rule exI [of _ "map fst d"],
        rule exI [of _ "map snd d"])
      (rule conjI [OF run conjI [OF len conjI [OF fs conjI [OF lm conjI [OF keys lz]]]]])
qed


lemma wf_conflicting: "wf_groundings conflicting [0, 1]"
  by (simp add: wf_groundings_def wf_grounding_def conflicting_def)

theorem C2_no_conflict_check_witness:
  "set_order_ok first_seen_order \<and> wf_groundings conflicting [0, 1] \<and>
   count_of (conflicting ! 0) ''x'' = 2 \<and> count_of (conflicting ! 1) ''x'' = 3 \<and>
   (\<exists>H' outs doms dims0.
      cross_grounding_values first_seen_order [0, 1] False conflicting
        = (H', Inr (outs, doms, dims0)) \<and>
      length outs = 2 \<and> set doms = {''x''} \<and> map_of (zip doms dims0) ''x'' = Some 3)"
proof -
  let ?P = "\<lambda>H' outs doms dims0.
      cross_grounding_values first_seen_order [0, 1] False conflicting
        = (H', Inr (outs, doms, dims0)) \<and>
      length outs = length [0 :: nat, 1] \<and>
      doms = first_seen (concat (map (\<lambda>g. doms_of (conflicting ! g)) [0, 1])) \<and>
      length dims0 = length doms \<and>
      set doms = (\<Union>g\<in>set [0, 1]. set (doms_of (conflicting ! g))) \<and>
      (\<forall>pre g post k.
          [0, 1] = pre @ g # post \<and> k \<in> set (doms_of (conflicting ! g)) \<and>
          (\<forall>g'\<in>set post. k \<notin> set (doms_of (conflicting ! g'))) \<longrightarrow>
          map_of (zip doms dims0) k = Some (count_of (conflicting ! g) k))"
  from C2_no_conflict_check [OF first_seen_order_ok wf_conflicting]
  obtain H' where "\<exists>outs doms dims0. ?P H' outs doms dims0" ..
  then obtain outs where "\<exists>doms dims0. ?P H' outs doms dims0" ..
  then obtain doms where "\<exists>dims0. ?P H' outs doms dims0" ..
  then obtain dims0 where X: "?P H' outs doms dims0" ..
  from X have run: "cross_grounding_values first_seen_order [0, 1] False conflicting
        = (H', Inr (outs, doms, dims0))" by (rule conjunct1)
  from X have "length outs = length [0 :: nat, 1]" by (rule conjunct2 [THEN conjunct1])
  then have len: "length outs = 2" by simp
  from X have "set doms = (\<Union>g\<in>set [0, 1]. set (doms_of (conflicting ! g)))"
    by (rule conjunct2 [THEN conjunct2, THEN conjunct2, THEN conjunct2, THEN conjunct1])
  then have doms: "set doms = {''x''}" by (simp add: doms_of_def conflicting_def)
  from X have last: "\<forall>pre g post k.
          [0, 1] = pre @ g # post \<and> k \<in> set (doms_of (conflicting ! g)) \<and>
          (\<forall>g'\<in>set post. k \<notin> set (doms_of (conflicting ! g'))) \<longrightarrow>
          map_of (zip doms dims0) k = Some (count_of (conflicting ! g) k)"
    by (rule conjunct2 [THEN conjunct2, THEN conjunct2, THEN conjunct2, THEN conjunct2])
  have c: "count_of (conflicting ! 0) ''x'' = 2" "count_of (conflicting ! 1) ''x'' = 3"
    by (simp_all add: count_of_def doms_of_def conflicting_def)
  have "[0, 1] = [0] @ 1 # [] \<and> ''x'' \<in> set (doms_of (conflicting ! 1)) \<and>
      (\<forall>g'\<in>set []. ''x'' \<notin> set (doms_of (conflicting ! g')))"
    by (simp add: doms_of_def conflicting_def)
  with last [THEN spec, THEN spec, THEN spec, THEN spec, of "[0]" 1 "[]" "''x''"]
  have "map_of (zip doms dims0) ''x'' = Some (count_of (conflicting ! 1) ''x'')"
    by (rule mp)
  then have m: "map_of (zip doms dims0) ''x'' = Some 3" unfolding c .
  have "\<exists>H' outs doms dims0.
      cross_grounding_values first_seen_order [0, 1] False conflicting
        = (H', Inr (outs, doms, dims0)) \<and>
      length outs = 2 \<and> set doms = {''x''} \<and> map_of (zip doms dims0) ''x'' = Some 3"
    by (rule exI [of _ H'], rule exI [of _ outs], rule exI [of _ doms], rule exI [of _ dims0])
      (rule conjI [OF run conjI [OF len conjI [OF doms m]]])
  with first_seen_order_ok wf_conflicting c show ?thesis by (intro conjI)
qed


end
